theory Spec2Isabelle
  imports Complex_Main "HOL-Library.Multiset" "HOL-Library.Char_ord"
    "HOL-Library.List_Lexorder" "HOL-Library.Product_Lexorder" "HOL-Library.Log_Nat"
begin

section \<open>Scripts/summary.py: daily summaries of TMS and dendrometer files\<close>

text \<open>
  The script is a thin layer of data flow over pandas, datetime and pytz. The data flow
  (which column is parsed, sorted, grouped, aggregated, shifted, and which path a table is
  written to) is embedded function by function. What the libraries compute on a single
  cell is not code of the script: the text parsers, the older part of the zone table and
  the sort algorithm are the fields of a record \<open>pylib\<close> that every function receives,
  so that each theorem holds for whatever the installed libraries do there. Concrete
  instances of these fields are defined further down and are used to run the functions on
  concrete files.

  Numbers: a numeric cell is a \<open>rat option\<close>, \<open>None\<close> being pandas' missing value (NaN)
  and \<open>Some q\<close> a finite float64 number, written as the rational it is. Sums,
  differences and quotients are rounded to the nearest float64 number
  (\<open>round_double\<close>). A column in which every token is an integer is an int64 column in
  pandas; it holds the same numbers, and its sums and differences are the same, as long
  as they stay within \<open>2 ^ 53\<close>. Infinite values and integers beyond that are outside
  the model.
\<close>

subsection \<open>Errors, timestamps, library parameters\<close>

text \<open>The exceptions that end a call: \<open>ParseError\<close> is the \<open>ValueError\<close> of a timestamp
  parser.\<close>

datatype error = ParseError | OverflowError | KeyError | AttributeError

text \<open>A naive \<open>datetime\<close> as the format \<open>%Y.%m.%d %H:%M\<close> fills it (seconds are always 0).\<close>

record datetime =
  year :: int
  month :: int
  day :: int
  hour :: int
  minute :: int

type_synonym date = "int \<times> int \<times> int"

definition date_of :: "datetime \<Rightarrow> date" where
  "date_of t = (year t, month t, day t)"

text \<open>Timestamps compare field by field, most significant first.\<close>

definition dt_key :: "datetime \<Rightarrow> int \<times> int \<times> int \<times> int \<times> int" where
  "dt_key t = (year t, month t, day t, hour t, minute t)"

text \<open>
  The library functions the script calls on single cells:
  \<^item> \<open>strptime s\<close>: \<open>datetime.strptime(s, "%Y.%m.%d %H:%M")\<close>, \<open>None\<close> when it raises;
  \<^item> \<open>tz_before_2007 t\<close>: the offset in minutes that the zone table of \<open>TIMEZONE\<close> has
    at a UTC instant \<open>t\<close> before 2007 (local mean time, and the daylight rules of the
    years 1918 to 2006);
  \<^item> \<open>to_datetime s\<close>: one cell of \<open>pd.to_datetime(..., format="%Y.%m.%d %H:%M")\<close>:
    \<open>Inl\<close> when it raises, \<open>Inr None\<close> for a cell it reads as missing (NaT);
  \<^item> \<open>to_numeric s\<close>: one cell of \<open>pd.to_numeric(..., errors="coerce")\<close>, \<open>None\<close> for a token
    that is not a number;
  \<^item> \<open>argsort ks\<close>: the positions of \<open>ks\<close> in the order \<open>sort_values\<close> puts them (default
    \<open>kind\<close>).
\<close>

record pylib =
  strptime :: "string \<Rightarrow> datetime option"
  tz_before_2007 :: "datetime \<Rightarrow> int"
  to_datetime :: "string \<Rightarrow> error + datetime option"
  to_numeric :: "string \<Rightarrow> rat option"
  argsort :: "datetime list \<Rightarrow> nat list"

text \<open>What pandas documents of \<open>argsort\<close>: a permutation of the positions along which the
  keys ascend. The order of equal keys is left open.\<close>

definition argsort_ok :: "(datetime list \<Rightarrow> nat list) \<Rightarrow> bool" where
  "argsort_ok srt =
     (\<forall>ks. mset (srt ks) = mset [0..<length ks]
        \<and> sorted (map (\<lambda>i. dt_key (ks ! i)) (srt ks)))"

subsection \<open>Calendar arithmetic of \<open>datetime\<close>\<close>

definition is_leap :: "int \<Rightarrow> bool" where
  "is_leap y = (y mod 4 = 0 \<and> (y mod 400 = 0 \<or> y mod 100 \<noteq> 0))"

definition days_in_month :: "int \<Rightarrow> int \<Rightarrow> int" where
  "days_in_month y m =
     (if m = 2 then (if is_leap y then 29 else 28)
      else if m = 4 \<or> m = 6 \<or> m = 9 \<or> m = 11 then 30 else 31)"

definition days_before_year :: "int \<Rightarrow> int" where
  "days_before_year y = (y - 1) * 365 + (y - 1) div 4 - (y - 1) div 100 + (y - 1) div 400"

definition days_before_month :: "int \<Rightarrow> int \<Rightarrow> int" where
  "days_before_month y m = sum_list (map (days_in_month y) [1..m - 1])"

text \<open>Proleptic Gregorian ordinal: day 1 is 0001-01-01, a Monday.\<close>

definition ymd2ord :: "int \<Rightarrow> int \<Rightarrow> int \<Rightarrow> int" where
  "ymd2ord y m d = days_before_year y + days_before_month y m + d"

definition ord2ymd :: "int \<Rightarrow> date" where
  "ord2ymd n0 =
     (let n = n0 - 1;
          n400 = n div 146097; n = n mod 146097;
          n100 = n div 36524; n = n mod 36524;
          n4 = n div 1461; n = n mod 1461;
          n1 = n div 365; n = n mod 365;
          y = n400 * 400 + 1 + n100 * 100 + n4 * 4 + n1
      in if n1 = 4 \<or> n100 = 4 then (y - 1, 12, 31)
         else
           let m = (n + 50) div 32;
               preceding = days_before_month y m
           in if preceding > n then (y, m - 1, n - (preceding - days_in_month y (m - 1)) + 1)
              else (y, m, n - preceding + 1))"

definition to_minutes :: "datetime \<Rightarrow> int" where
  "to_minutes t = ((ymd2ord (year t) (month t) (day t) * 24 + hour t) * 60 + minute t)"

definition of_minutes :: "int \<Rightarrow> datetime" where
  "of_minutes k =
     (case ord2ymd (k div 1440) of
        (y, m, d) \<Rightarrow>
          \<lparr>year = y, month = m, day = d, hour = (k mod 1440) div 60, minute = k mod 60\<rparr>)"



definition minutes_min :: int where
  "minutes_min = to_minutes \<lparr>year = 1, month = 1, day = 1, hour = 0, minute = 0\<rparr>"

definition minutes_max :: int where
  "minutes_max = to_minutes \<lparr>year = 9999, month = 12, day = 31, hour = 23, minute = 59\<rparr>"

subsection \<open>\<open>TIMEZONE\<close>\<close>


definition sunday_on_or_after :: "int \<Rightarrow> int" where
  "sunday_on_or_after n = n + (- n) mod 7"

definition dst_start :: "int \<Rightarrow> int" where
  "dst_start y = (sunday_on_or_after (ymd2ord y 3 8) * 24 + 7) * 60"

definition dst_end :: "int \<Rightarrow> int" where
  "dst_end y = (sunday_on_or_after (ymd2ord y 11 1) * 24 + 6) * 60"

definition daylight_time :: "datetime \<Rightarrow> bool" where
  "daylight_time t = (dst_start (year t) \<le> to_minutes t \<and> to_minutes t < dst_end (year t))"

definition TIMEZONE :: "pylib \<Rightarrow> datetime \<Rightarrow> int" where
  "TIMEZONE L t =
     (if year t < 2007 then tz_before_2007 L t
      else if year t \<le> 2037 \<and> daylight_time t then - 240
      else - 300)"

subsection \<open>\<open>convert_to_eastern\<close>\<close>

text \<open>
  \<^verbatim>\<open>dt = datetime.strptime(dt_string, "%Y.%m.%d %H:%M")\<close>
  \<^verbatim>\<open>local_dt = timezone("UTC").localize(dt).astimezone(TIMEZONE)\<close>
  \<^verbatim>\<open>return local_dt.replace(tzinfo=None)\<close>
  The parsed fields are taken as a UTC instant, the zone's offset at that instant is
  added, and the fields of the local time are returned without a zone. The addition
  raises \<open>OverflowError\<close> when the local time is not a \<open>datetime\<close> (before year 1 or
  after year 9999). Neither exception is caught.
\<close>

definition convert_to_eastern :: "pylib \<Rightarrow> string \<Rightarrow> error + datetime" where
  "convert_to_eastern L dt_string =
     (case strptime L dt_string of
        None \<Rightarrow> Inl ParseError
      | Some dt \<Rightarrow>
          let k = to_minutes dt + TIMEZONE L dt
          in if k < minutes_min \<or> minutes_max < k then Inl OverflowError
             else Inr (of_minutes k))"

subsection \<open>float64 arithmetic\<close>

text \<open>
  A finite float64 number is \<open>m * 2 ^ e\<close> with \<open>\<bar>m\<bar> < 2 ^ 53\<close> and \<open>- 1074 \<le> e\<close>. The
  operations \<open>+\<close>, \<open>-\<close> and \<open>/\<close> of numpy on float64 return the exact result rounded to
  the nearest such number, ties to the even mantissa (IEEE 754). \<open>floor_log2 a\<close> is the
  binary exponent of \<open>a > 0\<close>, and \<open>u\<close> below is the spacing of the float64 numbers next
  to \<open>q\<close>.
\<close>

definition pow2 :: "int \<Rightarrow> rat" where
  "pow2 e = (if 0 \<le> e then 2 ^ nat e else 1 / 2 ^ nat (- e))"

definition floor_log2 :: "rat \<Rightarrow> int" where
  "floor_log2 a =
     (case quotient_of a of
        (n, d) \<Rightarrow> let k = bitlen n - bitlen d in if pow2 k \<le> a then k else k - 1)"

definition round_half_even :: "rat \<Rightarrow> int" where
  "round_half_even x =
     (let f = \<lfloor>x\<rfloor>; r = x - of_int f
      in if r < 1 / 2 then f else if 1 / 2 < r then f + 1 else if even f then f else f + 1)"

definition round_double :: "rat \<Rightarrow> rat" where
  "round_double q =
     (if q = 0 then 0
      else let a = \<bar>q\<bar>;
               u = pow2 (max (floor_log2 a - 52) (- 1074))
           in sgn q * of_int (round_half_even (a / u)) * u)"

subsection \<open>Data frames\<close>

text \<open>A frame is the list of its rows in their current order, each with its index label.\<close>

type_synonym 'r frame = "(nat \<times> 'r) list"

text \<open>
  \<open>df[col] = df[col].apply(f)\<close> for a function that may raise: the cells are converted
  first row first, and the first exception ends the call. \<open>get\<close> reads the column of a
  row and \<open>put\<close> stores the converted cell.
\<close>

fun apply_col ::
  "('a \<Rightarrow> error + 'b) \<Rightarrow> ('r \<Rightarrow> 'a) \<Rightarrow> ('r \<Rightarrow> 'b \<Rightarrow> 'q) \<Rightarrow> 'r frame \<Rightarrow> error + 'q frame" where
  "apply_col f get put [] = Inr []"
| "apply_col f get put ((i, r) # df) =
     (case f (get r) of
        Inl e \<Rightarrow> Inl e
      | Inr v \<Rightarrow>
          (case apply_col f get put df of
             Inl e \<Rightarrow> Inl e
           | Inr df' \<Rightarrow> Inr ((i, put r v) # df')))"

text \<open>
  \<open>df.sort_values(col, inplace=True)\<close> on a datetime column: the rows with a timestamp in
  the order \<open>argsort\<close> gives, then the rows without one (\<open>na_position="last"\<close>). Every row
  keeps its label.
\<close>

definition sort_values :: "pylib \<Rightarrow> ('r \<Rightarrow> datetime option) \<Rightarrow> 'r frame \<Rightarrow> 'r frame" where
  "sort_values L col df =
     (let present = filter (\<lambda>(i, r). col r \<noteq> None) df;
          missing = filter (\<lambda>(i, r). col r = None) df
      in map (\<lambda>p. present ! p) (argsort L (map (\<lambda>(i, r). the (col r)) present)) @ missing)"

text \<open>
  The left bound of the label slice \<open>df.loc[label:]\<close> on an index of distinct integers:
  the position of the label when the index has it; otherwise the insertion point when
  the index is ascending, the mirrored insertion point when it is descending, and a
  \<open>KeyError\<close> when the index is in no order.
\<close>

fun get_loc :: "nat list \<Rightarrow> nat \<Rightarrow> nat option" where
  "get_loc [] label = None"
| "get_loc (i # index) label =
     (if i = label then Some 0 else map_option Suc (get_loc index label))"

definition slice_bound_left :: "nat list \<Rightarrow> nat \<Rightarrow> error + nat" where
  "slice_bound_left index label =
     (case get_loc index label of
        Some pos \<Rightarrow> Inr pos
      | None \<Rightarrow>
          if sorted index then Inr (length (filter (\<lambda>i. i < label) index))
          else if sorted (rev index) then
            Inr (length index - length (filter (\<lambda>i. i \<le> label) index))
          else Inl KeyError)"

subsection \<open>\<open>compute_dbh_df\<close>\<close>

text \<open>The ten columns the function names, in the file's order. The timestamp and the
  size change their type on the way, the other columns stay text.\<close>

record ('t, 's) dbh_row =
  Sensor :: string
  dbh_Timestamp :: 't
  X3 :: string
  dbh_T1 :: string
  dbh_T2 :: string
  dbh_T3 :: string
  Size :: 's
  Humidity :: string
  Battery :: string
  X :: string

definition set_Timestamp :: "('a, 's) dbh_row \<Rightarrow> 't \<Rightarrow> ('t, 's) dbh_row" where
  "set_Timestamp r t =
     \<lparr>Sensor = Sensor r, dbh_Timestamp = t, X3 = X3 r, dbh_T1 = dbh_T1 r, dbh_T2 = dbh_T2 r,
      dbh_T3 = dbh_T3 r, Size = Size r, Humidity = Humidity r, Battery = Battery r, X = X r\<rparr>"

definition set_Size :: "('t, 'a) dbh_row \<Rightarrow> 's \<Rightarrow> ('t, 's) dbh_row" where
  "set_Size r s =
     \<lparr>Sensor = Sensor r, dbh_Timestamp = dbh_Timestamp r, X3 = X3 r, dbh_T1 = dbh_T1 r,
      dbh_T2 = dbh_T2 r, dbh_T3 = dbh_T3 r, Size = s, Humidity = Humidity r,
      Battery = Battery r, X = X r\<rparr>"

text \<open>
  \<^item> \<open>raw.iloc[start_row:]\<close>, \<open>reset_index(drop=True)\<close>: the rows after the first
    \<open>start_row\<close>, labelled from 0 in file order;
  \<^item> \<open>df["Timestamp"].apply(convert_to_eastern)\<close>: stops at the first exception;
  \<^item> \<open>sort_values("Timestamp")\<close>: the rows move, the labels move with them;
  \<^item> \<open>pd.to_numeric(..., errors="coerce")\<close>: the guard on the dtype only skips the
    conversion of a column the reader has already converted, so every Size cell is
    the number its token denotes, or missing;
  \<^item> \<open>rollover_points\<close>: the labels of the rows whose Size is 8890, in frame order;
  \<^item> \<open>df.loc[last_8890_index + 1:, "Size"] += baseline\<close>: a slice by label.
\<close>

definition add_baseline :: "rat \<Rightarrow> nat \<times> (datetime, rat option) dbh_row
    \<Rightarrow> nat \<times> (datetime, rat option) dbh_row" where
  "add_baseline baseline =
     (\<lambda>(i, r). (i, set_Size r (map_option (\<lambda>v. round_double (v + baseline)) (Size r))))"

text \<open>The last block of the function, from \<open>rollover_points\<close> on, on the sorted frame
  with numeric sizes.\<close>

definition rollover_correction ::
  "(datetime, rat option) dbh_row frame \<Rightarrow> error + (datetime, rat option) dbh_row frame" where
  "rollover_correction df =
     (let rollover_points = map fst (filter (\<lambda>(i, r). Size r = Some 8890) df)
      in if rollover_points \<noteq> [] then
           let last_8890_index = last rollover_points;
               baseline = 8890
           in case slice_bound_left (map fst df) (last_8890_index + 1) of
                Inl e \<Rightarrow> Inl e
              | Inr pos \<Rightarrow> Inr (take pos df @ map (add_baseline baseline) (drop pos df))
         else Inr df)"

definition compute_dbh_df ::
  "pylib \<Rightarrow> (string, string) dbh_row list \<Rightarrow> nat
     \<Rightarrow> error + (datetime, rat option) dbh_row frame" where
  "compute_dbh_df L raw start_row =
     (let rows = drop start_row raw;
          df = zip [0..<length rows] rows
      in case apply_col (convert_to_eastern L) dbh_Timestamp set_Timestamp df of
           Inl e \<Rightarrow> Inl e
         | Inr df \<Rightarrow>
             let df = sort_values L (\<lambda>r. Some (dbh_Timestamp r)) df;
                 df = map (\<lambda>(i, r). (i, set_Size r (to_numeric L (Size r)))) df
             in rollover_correction df)"

subsection \<open>Aggregation by group\<close>

fun dropna :: "'a option list \<Rightarrow> 'a list" where
  "dropna [] = []"
| "dropna (None # col) = dropna col"
| "dropna (Some v # col) = v # dropna col"

text \<open>The aggregations \<open>"min"\<close>, \<open>"max"\<close> and \<open>"count"\<close> of a group's column: missing cells
  are skipped, and a column with no value left has a missing minimum and maximum.\<close>

definition agg_min :: "rat option list \<Rightarrow> rat option" where
  "agg_min col = (case dropna col of [] \<Rightarrow> None | v # vs \<Rightarrow> Some (fold min vs v))"

definition agg_max :: "rat option list \<Rightarrow> rat option" where
  "agg_max col = (case dropna col of [] \<Rightarrow> None | v # vs \<Rightarrow> Some (fold max vs v))"

definition agg_count :: "'a option list \<Rightarrow> nat" where
  "agg_count col = length (dropna col)"

text \<open>\<open>groupby\<close> with its defaults: one group per key value, the groups in ascending key
  order, the rows of a group in frame order, the rows with a missing key in no group.\<close>

definition groupby :: "('r \<Rightarrow> 'k::linorder option) \<Rightarrow> 'r list \<Rightarrow> ('k \<times> 'r list) list" where
  "groupby key rows =
     map (\<lambda>k. (k, filter (\<lambda>r. key r = Some k) rows)) (sort (remdups (dropna (map key rows))))"

subsection \<open>File names and paths\<close>

definition endswith :: "string \<Rightarrow> string \<Rightarrow> bool" where
  "endswith s suffix =
     (length suffix \<le> length s \<and> drop (length s - length suffix) s = suffix)"

text \<open>\<open>str.lower\<close> on the letters A to Z.\<close>

definition lower :: "string \<Rightarrow> string" where
  "lower s =
     map (\<lambda>c. if CHR ''A'' \<le> c \<and> c \<le> CHR ''Z'' then char_of (of_char c + (32::nat)) else c) s"

definition rfind :: "char \<Rightarrow> string \<Rightarrow> nat option" where
  "rfind c s =
     (if c \<in> set s then Some (length s - 1 - length (takeWhile (\<lambda>d. d \<noteq> c) (rev s)))
      else None)"

text \<open>\<open>Path(file).stem\<close> of a bare file name: the name up to its last dot, unless that dot
  is the first or the last character.\<close>

definition stem :: "string \<Rightarrow> string" where
  "stem name =
     (case rfind (CHR ''.'') name of
        None \<Rightarrow> name
      | Some i \<Rightarrow> if 0 < i \<and> i < length name - 1 then take i name else name)"

text \<open>\<open>Path(file).stem.split("_")[0]\<close>\<close>

definition station_id_of :: "string \<Rightarrow> string" where
  "station_id_of file = takeWhile (\<lambda>c. c \<noteq> CHR ''_'') (stem file)"

definition os_path_join :: "string \<Rightarrow> string \<Rightarrow> string" where
  "os_path_join a b =
     (if b \<noteq> [] \<and> hd b = CHR ''/'' then b
      else if a = [] \<or> last a = CHR ''/'' then a @ b
      else a @ ''/'' @ b)"

definition SUMMARIES_FOLDER :: string where
  "SUMMARIES_FOLDER = ''./Summaries''"

subsection \<open>\<open>daily_summary\<close> and \<open>summarize_folder\<close>\<close>

text \<open>A climate record. The measurement columns are numeric columns of the reader.\<close>

record 't climate_row =
  Timestamp :: 't
  T1 :: "rat option"
  T2 :: "rat option"
  T3 :: "rat option"
  SM :: "rat option"
  SH :: "rat option"

definition set_climate_Timestamp :: "'a climate_row \<Rightarrow> 't \<Rightarrow> 't climate_row" where
  "set_climate_Timestamp r t =
     \<lparr>Timestamp = t, T1 = T1 r, T2 = T2 r, T3 = T3 r, SM = SM r, SH = SH r\<rparr>"

record daily_row =
  Date :: date
  T1_Min :: "rat option"
  T1_Max :: "rat option"
  T2_Min :: "rat option"
  T2_Max :: "rat option"
  T3_Min :: "rat option"
  T3_Max :: "rat option"
  Soil_Min :: "rat option"
  Soil_Max :: "rat option"
  Shake_Max :: "rat option"
  Rows :: nat

record dbh_daily =
  Sensor_ID_key :: string
  Timestamp_key :: date
  Min_Size :: "rat option"
  Max_Size :: "rat option"
  Growth_mm :: "rat option"
  Growth_cm :: "rat option"

text \<open>The output folder: the table stored at each path.\<close>

datatype csv = Climate_csv "daily_row list" | Dbh_csv "dbh_daily list"

type_synonym files = "string \<Rightarrow> csv option"

text \<open>\<open>df["Date"] = df["Timestamp"].dt.date\<close>, and the call \<open>.agg(...)\<close> on one group.\<close>

definition Date_col :: "datetime option climate_row \<Rightarrow> date option" where
  "Date_col r = map_option date_of (Timestamp r)"

definition agg :: "date \<times> datetime option climate_row list \<Rightarrow> daily_row" where
  "agg = (\<lambda>(d, g).
     \<lparr>Date = d,
      T1_Min = agg_min (map T1 g), T1_Max = agg_max (map T1 g),
      T2_Min = agg_min (map T2 g), T2_Max = agg_max (map T2 g),
      T3_Min = agg_min (map T3 g), T3_Max = agg_max (map T3 g),
      Soil_Min = agg_min (map SM g), Soil_Max = agg_max (map SM g),
      Shake_Max = agg_max (map SH g),
      Rows = agg_count (map Timestamp g)\<rparr>)"

text \<open>
  The table \<open>grouped\<close> of \<open>daily_summary\<close>: the timestamps are parsed (an exception is not
  caught), the frame is sorted, and each date's group is aggregated.
\<close>

definition grouped :: "pylib \<Rightarrow> string climate_row frame \<Rightarrow> error + daily_row list" where
  "grouped L df =
     (case apply_col (to_datetime L) Timestamp set_climate_Timestamp df of
        Inl e \<Rightarrow> Inl e
      | Inr df \<Rightarrow>
          let df = sort_values L Timestamp df
          in Inr (map agg (groupby Date_col (map snd df))))"

definition daily_summary ::
  "pylib \<Rightarrow> string climate_row frame \<Rightarrow> string \<Rightarrow> string \<Rightarrow> files \<Rightarrow> error + files" where
  "daily_summary L df station_id dest_folder fs =
     (case grouped L df of
        Inl e \<Rightarrow> Inl e
      | Inr g \<Rightarrow>
          let dest_path = os_path_join dest_folder (station_id @ ''_daily.csv'')
          in Inr (fs(dest_path \<mapsto> Climate_csv g)))"

text \<open>\<open>pd.read_csv\<close> labels the rows of a table from 0.\<close>

definition read_csv :: "'r list \<Rightarrow> 'r frame" where
  "read_csv rows = zip [0..<length rows] rows"

text \<open>The folder is the list of its files in the order \<open>os.walk\<close> yields them, each with
  the rows the reader finds in it.\<close>

fun summarize_folder ::
  "pylib \<Rightarrow> (string \<times> string climate_row list) list \<Rightarrow> string \<Rightarrow> files \<Rightarrow> error + files" where
  "summarize_folder L [] dest_folder fs = Inr fs"
| "summarize_folder L ((file, rows) # folder) dest_folder fs =
     (if endswith file ''.csv'' then
        (let df = read_csv rows;
             station_id = station_id_of file
         in case daily_summary L df station_id dest_folder fs of
              Inl e \<Rightarrow> Inl e
            | Inr fs' \<Rightarrow> summarize_folder L folder dest_folder fs')
      else summarize_folder L folder dest_folder fs)"

subsection \<open>\<open>process_dbh_folder\<close> and the run\<close>

record ('t, 's) dbh_row_id = "('t, 's) dbh_row" +
  Sensor_ID :: string

definition set_Sensor_ID :: "('t, 's) dbh_row \<Rightarrow> string \<Rightarrow> ('t, 's) dbh_row_id" where
  "set_Sensor_ID r sensor_id =
     \<lparr>Sensor = Sensor r, dbh_Timestamp = dbh_Timestamp r, X3 = X3 r, dbh_T1 = dbh_T1 r,
      dbh_T2 = dbh_T2 r, dbh_T3 = dbh_T3 r, Size = Size r, Humidity = Humidity r,
      Battery = Battery r, X = X r, Sensor_ID = sensor_id\<rparr>"

text \<open>The loop that fills \<open>all_data\<close>: files in \<open>os.listdir\<close> order, other files than
  \<open>.csv\<close> skipped, an exception of \<open>compute_dbh_df\<close> not caught.\<close>

fun all_data ::
  "pylib \<Rightarrow> (string \<times> (string, string) dbh_row list) list
     \<Rightarrow> error + (datetime, rat option) dbh_row_id frame list" where
  "all_data L [] = Inr []"
| "all_data L ((file, raw) # folder) =
     (if \<not> endswith (lower file) ''.csv'' then all_data L folder
      else
        (case compute_dbh_df L raw 1 of
           Inl e \<Rightarrow> Inl e
         | Inr df \<Rightarrow>
             (let sensor_id = station_id_of file;
                  df = map (\<lambda>(i, r). (i, set_Sensor_ID r sensor_id)) df
              in (case all_data L folder of
                    Inl e \<Rightarrow> Inl e
                  | Inr dfs \<Rightarrow> Inr (df # dfs)))))"

text \<open>\<open>Max_Size - Min_Size\<close> and \<open>Growth_mm / 10.0\<close> on float64 cells that may be
  missing.\<close>

definition minus_cell :: "rat option \<Rightarrow> rat option \<Rightarrow> rat option" where
  "minus_cell a b =
     (case (a, b) of (Some x, Some y) \<Rightarrow> Some (round_double (x - y)) | _ \<Rightarrow> None)"

definition div_cell :: "rat option \<Rightarrow> rat \<Rightarrow> rat option" where
  "div_cell a k = map_option (\<lambda>x. round_double (x / k)) a"

definition daily_of_group ::
  "(string \<times> date) \<times> (datetime, rat option) dbh_row_id list \<Rightarrow> dbh_daily" where
  "daily_of_group = (\<lambda>((sensor_id, d), g).
     let min_size = agg_min (map Size g);
         max_size = agg_max (map Size g);
         growth_mm = minus_cell max_size min_size
     in \<lparr>Sensor_ID_key = sensor_id, Timestamp_key = d, Min_Size = min_size,
         Max_Size = max_size, Growth_mm = growth_mm, Growth_cm = div_cell growth_mm 10\<rparr>)"

text \<open>
  The function proper. With no \<open>.csv\<close> file it returns \<open>None\<close> and writes nothing. When
  the files have no data row at all, the Timestamp column of \<open>combined\<close> holds no
  datetime and \<open>combined["Timestamp"].dt\<close> raises \<open>AttributeError\<close>. Otherwise the
  rows are grouped by sensor and local date, and the summary is written and returned (a
  file without data rows among files with data rows adds nothing to \<open>combined\<close>).
\<close>

definition process_dbh_folder ::
  "pylib \<Rightarrow> (string \<times> (string, string) dbh_row list) list \<Rightarrow> files
     \<Rightarrow> error + (dbh_daily list option \<times> files)" where
  "process_dbh_folder L folder fs =
     (case all_data L folder of
        Inl e \<Rightarrow> Inl e
      | Inr dfs \<Rightarrow>
          if dfs = [] then Inr (None, fs)
          else
            let combined = concat (map (map snd) dfs)
            in if combined = [] then Inl AttributeError
               else
                 let daily = map daily_of_group
                       (groupby (\<lambda>r. Some (Sensor_ID r, date_of (dbh_Timestamp r))) combined);
                     out_path = os_path_join SUMMARIES_FOLDER ''dbh_summary.csv''
                 in Inr (Some daily, fs(out_path \<mapsto> Dbh_csv daily)))"

text \<open>The script's main block: the climate summaries, then the DBH summary. The metadata
  tables that are read last are not written anywhere and are left out.\<close>

definition main ::
  "pylib \<Rightarrow> (string \<times> string climate_row list) list
     \<Rightarrow> (string \<times> (string, string) dbh_row list) list \<Rightarrow> files \<Rightarrow> error + files" where
  "main L extract_folder dbh_static_folder fs =
     (case summarize_folder L extract_folder SUMMARIES_FOLDER fs of
        Inl e \<Rightarrow> Inl e
      | Inr fs1 \<Rightarrow>
          (case process_dbh_folder L dbh_static_folder fs1 of
             Inl e \<Rightarrow> Inl e
           | Inr (daily, fs2) \<Rightarrow> Inr fs2))"

subsection \<open>Notions of the statements\<close>

text \<open>The calendar date a source record of a climate file falls on, if its timestamp is
  read as one; the source records of a date; a record with its timestamp parsed.\<close>

definition date_cell :: "pylib \<Rightarrow> string climate_row \<Rightarrow> date option" where
  "date_cell L r =
     (case to_datetime L (Timestamp r) of Inr (Some t) \<Rightarrow> Some (date_of t) | _ \<Rightarrow> None)"

definition on_date :: "pylib \<Rightarrow> date \<Rightarrow> string climate_row list \<Rightarrow> string climate_row list" where
  "on_date L d rows = filter (\<lambda>r. date_cell L r = Some d) rows"

definition parsed :: "pylib \<Rightarrow> string climate_row \<Rightarrow> datetime option climate_row" where
  "parsed L r = set_climate_Timestamp r (projr (to_datetime L (Timestamp r)))"

text \<open>The null-safe minimum and maximum of a column, in the spec's words: the least
  (greatest) of the values that are there, and a missing value when none is.\<close>

definition null_safe_min :: "rat option list \<Rightarrow> rat option" where
  "null_safe_min col =
     (if set (dropna col) = {} then None else Some (Min (set (dropna col))))"

definition null_safe_max :: "rat option list \<Rightarrow> rat option" where
  "null_safe_max col =
     (if set (dropna col) = {} then None else Some (Max (set (dropna col))))"

text \<open>The corrected rows of all files of a dendrometer folder, and those of one sensor
  and local date.\<close>

definition corrected_rows ::
  "pylib \<Rightarrow> (string \<times> (string, string) dbh_row list) list
     \<Rightarrow> (datetime, rat option) dbh_row_id list" where
  "corrected_rows L folder =
     (case all_data L folder of Inl e \<Rightarrow> [] | Inr dfs \<Rightarrow> concat (map (map snd) dfs))"

definition sensor_day ::
  "string \<Rightarrow> date \<Rightarrow> (datetime, rat option) dbh_row_id list
     \<Rightarrow> (datetime, rat option) dbh_row_id list" where
  "sensor_day sensor_id d rows =
     filter (\<lambda>r. Sensor_ID r = sensor_id \<and> date_of (dbh_Timestamp r) = d) rows"

text \<open>The path a climate file's summary is written to; the last \<open>.csv\<close> file of a folder
  that is written to a given path; and what a path holds once that file is written.\<close>

definition dest_path_of :: "string \<Rightarrow> string \<Rightarrow> string" where
  "dest_path_of dest_folder file = os_path_join dest_folder (station_id_of file @ ''_daily.csv'')"

definition last_with_path ::
  "string \<Rightarrow> string \<Rightarrow> (string \<times> string climate_row list) list
     \<Rightarrow> (string \<times> string climate_row list) option" where
  "last_with_path dest_folder path folder =
     (case filter (\<lambda>(file, rows). endswith file ''.csv'' \<and> dest_path_of dest_folder file = path)
             folder of
        [] \<Rightarrow> None
      | hit # hits \<Rightarrow> Some (last (hit # hits)))"

definition written ::
  "pylib \<Rightarrow> (string \<times> string climate_row list) option \<Rightarrow> csv option \<Rightarrow> csv option" where
  "written L hit old =
     (case hit of
        None \<Rightarrow> old
      | Some (file, rows) \<Rightarrow>
          (case grouped L (read_csv rows) of Inl e \<Rightarrow> None | Inr g \<Rightarrow> Some (Climate_csv g)))"

subsection \<open>Instances of the library parameters\<close>

text \<open>
  \<open>datetime.strptime(s, "%Y.%m.%d %H:%M")\<close> as CPython (3.8 to 3.12) runs it. The format
  becomes the regular expression
  \<^verbatim>\<open>(\d\d\d\d)\.(1[0-2]|0[1-9]|[1-9])\.(3[0-1]|[1-2]\d|0[1-9]|[1-9]| [1-9])\s+(2[0-3]|[0-1]\d|\d):([0-5]\d|\d)\<close>
  which is matched at the start of the string by backtracking, alternatives in the order
  written and \<^verbatim>\<open>\s+\<close> longest first. The first match found must end at the end of the
  string, and its fields must be a date of the calendar; anything else is a
  \<open>ValueError\<close>. So the month, day, hour and minute may have one digit, and any run of
  white space may stand between date and time. Characters are the 256 of Latin-1, of
  which \<^verbatim>\<open>\d\<close> matches the ten ASCII digits.
\<close>

definition is_digit :: "char \<Rightarrow> bool" where
  "is_digit c = (CHR ''0'' \<le> c \<and> c \<le> CHR ''9'')"

definition between :: "char \<Rightarrow> char \<Rightarrow> char \<Rightarrow> bool" where
  "between a b c = (a \<le> c \<and> c \<le> b)"

definition is_space :: "char \<Rightarrow> bool" where
  "is_space c =
     (let n = of_char c :: nat
      in (9 \<le> n \<and> n \<le> 13) \<or> (28 \<le> n \<and> n \<le> 32) \<or> n = 133 \<or> n = 160)"

text \<open>A sequence of character classes read at the start of a string: the rest of the
  string when every class has its character.\<close>

fun match_seq :: "(char \<Rightarrow> bool) list \<Rightarrow> string \<Rightarrow> string option" where
  "match_seq [] s = Some s"
| "match_seq (p # ps) [] = None"
| "match_seq (p # ps) (c # s) = (if p c then match_seq ps s else None)"

text \<open>The ways a group of alternatives matches at the start of a string, in the order
  the matcher tries them: the text matched and the rest.\<close>

definition alternatives :: "(char \<Rightarrow> bool) list list \<Rightarrow> string \<Rightarrow> (string \<times> string) list" where
  "alternatives alts s =
     concat (map (\<lambda>alt. case match_seq alt s of
                           None \<Rightarrow> []
                         | Some rest \<Rightarrow> [(take (length alt) s, rest)]) alts)"

definition re_Y :: "string \<Rightarrow> (string \<times> string) list" where
  "re_Y = alternatives [[is_digit, is_digit, is_digit, is_digit]]"

definition re_m :: "string \<Rightarrow> (string \<times> string) list" where
  "re_m = alternatives
     [[(=) CHR ''1'', between CHR ''0'' CHR ''2''], [(=) CHR ''0'', between CHR ''1'' CHR ''9''],
      [between CHR ''1'' CHR ''9'']]"

definition re_d :: "string \<Rightarrow> (string \<times> string) list" where
  "re_d = alternatives
     [[(=) CHR ''3'', between CHR ''0'' CHR ''1''], [between CHR ''1'' CHR ''2'', is_digit],
      [(=) CHR ''0'', between CHR ''1'' CHR ''9''], [between CHR ''1'' CHR ''9''],
      [(=) CHR '' '', between CHR ''1'' CHR ''9'']]"

definition re_H :: "string \<Rightarrow> (string \<times> string) list" where
  "re_H = alternatives
     [[(=) CHR ''2'', between CHR ''0'' CHR ''3''], [between CHR ''0'' CHR ''1'', is_digit],
      [is_digit]]"

definition re_M :: "string \<Rightarrow> (string \<times> string) list" where
  "re_M = alternatives [[between CHR ''0'' CHR ''5'', is_digit], [is_digit]]"

definition re_char :: "char \<Rightarrow> string \<Rightarrow> (string \<times> string) list" where
  "re_char c = alternatives [[(=) c]]"

definition re_spaces :: "string \<Rightarrow> (string \<times> string) list" where
  "re_spaces s =
     map (\<lambda>k. (take k s, drop k s)) (rev [1..<Suc (length (takeWhile is_space s))])"

text \<open>The matches of the whole expression in the order of the search: the five fields
  and what is left of the string.\<close>

definition format_regex :: "string \<Rightarrow> (string list \<times> string) list" where
  "format_regex s =
     [([y, m, d, h, mi], r9).
        (y, r1) \<leftarrow> re_Y s, (p1, r2) \<leftarrow> re_char CHR ''.'' r1,
        (m, r3) \<leftarrow> re_m r2, (p2, r4) \<leftarrow> re_char CHR ''.'' r3,
        (d, r5) \<leftarrow> re_d r4, (sp, r6) \<leftarrow> re_spaces r5,
        (h, r7) \<leftarrow> re_H r6, (c, r8) \<leftarrow> re_char CHR '':'' r7,
        (mi, r9) \<leftarrow> re_M r8]"

definition digit_val :: "char \<Rightarrow> int option" where
  "digit_val c = (if is_digit c then Some (int (of_char c) - 48) else None)"

fun digits_val :: "string \<Rightarrow> int option" where
  "digits_val [] = None"
| "digits_val cs =
     fold (\<lambda>c acc. case (acc, digit_val c) of
                      (Some a, Some d) \<Rightarrow> Some (a * 10 + d)
                    | _ \<Rightarrow> None) cs (Some 0)"

text \<open>\<open>int(field)\<close>: the blank of a day field is skipped.\<close>

definition int_of :: "string \<Rightarrow> int option" where
  "int_of s = digits_val (dropWhile is_space s)"

definition strptime_format :: "string \<Rightarrow> datetime option" where
  "strptime_format s =
     (case format_regex s of
        [] \<Rightarrow> None
      | (found, rest) # others \<Rightarrow>
          if rest \<noteq> [] then None
          else
            (case map int_of found of
               [Some y, Some m, Some d, Some h, Some mi] \<Rightarrow>
                 if 1 \<le> y \<and> d \<le> days_in_month y m
                 then Some \<lparr>year = y, month = m, day = d, hour = h, minute = mi\<rparr>
                 else None
             | _ \<Rightarrow> None))"

text \<open>The years before 2007 with standard time throughout. The run below reads it at no
  timestamp but \<open>0001.01.01 00:00\<close>, where every offset behind UTC gives the same
  result.\<close>

definition standard_time :: "datetime \<Rightarrow> int" where
  "standard_time t = - 300"

text \<open>A reader of unsigned decimal integers; every other token is not a number for it.
  pandas reads more spellings of a number (a sign, a fraction, an exponent); the files
  below have none of them.\<close>

definition to_numeric_digits :: "string \<Rightarrow> rat option" where
  "to_numeric_digits s = map_option of_int (digits_val s)"

text \<open>A stable argsort (insertion sort on the keys).\<close>

definition stable_argsort :: "datetime list \<Rightarrow> nat list" where
  "stable_argsort ks = sort_key (\<lambda>i. dt_key (ks ! i)) [0..<length ks]"

text \<open>One cell of \<open>pd.to_datetime\<close> with the format: the text \<open>nan\<close> that \<open>astype(str)\<close>
  makes of an empty cell is \<open>NaT\<close>, and any other cell is read as \<open>strptime\<close> reads it.
  pandas has a parser of its own for the format; on the zero-padded timestamps of the
  files below the two agree.\<close>

definition to_datetime_format :: "string \<Rightarrow> error + datetime option" where
  "to_datetime_format s =
     (if s = ''nan'' then Inr None
      else case strptime_format s of None \<Rightarrow> Inl ParseError | Some t \<Rightarrow> Inr (Some t))"

definition pylib0 :: pylib where
  "pylib0 = \<lparr>strptime = strptime_format, tz_before_2007 = standard_time,
             to_datetime = to_datetime_format, to_numeric = to_numeric_digits,
             argsort = stable_argsort\<rparr>"

subsection \<open>The fixed format\<close>

text \<open>The strings of the form \<open>YYYY.MM.DD HH:MM\<close>: sixteen characters, a digit in each
  place of a letter.\<close>

definition fixed_format :: "string \<Rightarrow> bool" where
  "fixed_format s =
     (match_seq
        [is_digit, is_digit, is_digit, is_digit, (=) CHR ''.'', is_digit, is_digit,
         (=) CHR ''.'', is_digit, is_digit, (=) CHR '' '', is_digit, is_digit, (=) CHR '':'',
         is_digit, is_digit] s = Some [])"


subsection \<open>Sample files\<close>

text \<open>A line of a dendrometer file with the given timestamp and size tokens.\<close>

definition dbh_line :: "string \<Rightarrow> string \<Rightarrow> (string, string) dbh_row" where
  "dbh_line t s =
     \<lparr>Sensor = ''92201'', dbh_Timestamp = t, X3 = ''0'', dbh_T1 = ''21.5'', dbh_T2 = ''0'',
      dbh_T3 = ''0'', Size = s, Humidity = ''55'', Battery = ''3.1'', X = []\<rparr>"

text \<open>The header line that \<open>start_row\<close> skips.\<close>

definition dbh_header :: "(string, string) dbh_row" where
  "dbh_header = dbh_line ''Timestamp'' ''Size''"

text \<open>A file with a timestamp written with dashes.\<close>

definition dbh_malformed :: "(string, string) dbh_row list" where
  "dbh_malformed =
     [dbh_header, dbh_line ''2023.07.04 16:00'' ''100'', dbh_line ''2023-07-04 16:10'' ''120'']"

text \<open>A file in time order in which no size is 8890.\<close>

definition dbh_plain :: "(string, string) dbh_row list" where
  "dbh_plain =
     [dbh_header, dbh_line ''2023.07.04 16:00'' ''100'', dbh_line ''2023.07.04 16:10'' ''500'',
      dbh_line ''2023.07.04 16:20'' ''50'']"

text \<open>The size sequence 100, 500, 8890, 50, 300 in time order.\<close>

definition dbh_rollover :: "(string, string) dbh_row list" where
  "dbh_rollover =
     [dbh_header, dbh_line ''2023.07.04 16:00'' ''100'', dbh_line ''2023.07.04 16:10'' ''500'',
      dbh_line ''2023.07.04 16:20'' ''8890'', dbh_line ''2023.07.04 16:30'' ''50'',
      dbh_line ''2023.07.04 16:40'' ''300'']"

text \<open>Three readings whose lines are not in time order: the reading of 11:00 UTC is
  written before the reading of 10:00 UTC.\<close>

definition dbh_unsorted :: "(string, string) dbh_row list" where
  "dbh_unsorted =
     [dbh_header, dbh_line ''2023.07.04 11:00'' ''50'', dbh_line ''2023.07.04 10:00'' ''8890'',
      dbh_line ''2023.07.04 12:00'' ''300'']"

text \<open>Three readings in UTC order across the end of daylight time on 2023-11-05: the
  local times are 01:30, 01:15 and 02:00.\<close>

definition dbh_fall_back :: "(string, string) dbh_row list" where
  "dbh_fall_back =
     [dbh_header, dbh_line ''2023.11.05 05:30'' ''8890'', dbh_line ''2023.11.05 06:15'' ''50'',
      dbh_line ''2023.11.05 07:00'' ''300'']"

text \<open>Three readings out of time order whose last line holds the 8890.\<close>

definition dbh_last_line :: "(string, string) dbh_row list" where
  "dbh_last_line =
     [dbh_header, dbh_line ''2023.07.04 11:00'' ''50'', dbh_line ''2023.07.04 10:00'' ''20'',
      dbh_line ''2023.07.04 12:00'' ''8890'']"

text \<open>The labels, local timestamps and sizes of a result, for reading it.\<close>

definition sizes_of ::
  "error + (datetime, rat option) dbh_row frame
     \<Rightarrow> error + (nat \<times> (int \<times> int \<times> int \<times> int \<times> int) \<times> rat option) list" where
  "sizes_of res =
     (case res of
        Inl e \<Rightarrow> Inl e
      | Inr df \<Rightarrow> Inr (map (\<lambda>(i, r). (i, dt_key (dbh_Timestamp r), Size r)) df))"

text \<open>A climate record with the given timestamp text and measurements.\<close>

definition climate_line ::
  "string \<Rightarrow> rat option \<Rightarrow> rat option \<Rightarrow> rat option \<Rightarrow> rat option \<Rightarrow> rat option
     \<Rightarrow> string climate_row" where
  "climate_line t a b c d e = \<lparr>Timestamp = t, T1 = a, T2 = b, T3 = c, SM = d, SH = e\<rparr>"

text \<open>Three records of two days, not in time order; the second has no measurement at
  all, and no record of the first day has a value of \<open>T3\<close>.\<close>

definition climate_sample :: "string climate_row list" where
  "climate_sample =
     [climate_line ''2023.07.05 09:00'' (Some 18) (Some 17) (Some 16) (Some 300) (Some 2),
      climate_line ''2023.07.04 11:00'' None None None None None,
      climate_line ''2023.07.04 10:00'' (Some 20) (Some (- 3)) None (Some 250) (Some 0)]"

definition climate_daily :: "daily_row list" where
  "climate_daily =
     [\<lparr>Date = (2023, 7, 4), T1_Min = Some 20, T1_Max = Some 20, T2_Min = Some (- 3),
       T2_Max = Some (- 3), T3_Min = None, T3_Max = None, Soil_Min = Some 250,
       Soil_Max = Some 250, Shake_Max = Some 0, Rows = 2\<rparr>,
      \<lparr>Date = (2023, 7, 5), T1_Min = Some 18, T1_Max = Some 18, T2_Min = Some 17,
       T2_Max = Some 17, T3_Min = Some 16, T3_Max = Some 16, Soil_Min = Some 300,
       Soil_Max = Some 300, Shake_Max = Some 2, Rows = 1\<rparr>]"

text \<open>A dendrometer file with a size that is not a number, and a folder of two files.\<close>

definition dbh_gap :: "(string, string) dbh_row list" where
  "dbh_gap =
     [dbh_header, dbh_line ''2023.07.04 16:00'' ''100'', dbh_line ''2023.07.04 16:10'' ''n/a'',
      dbh_line ''2023.07.04 16:20'' ''130'', dbh_line ''2023.07.05 16:00'' ''--'',
      dbh_line ''2023.07.06 16:00'' ''140'']"

definition dbh_folder :: "(string \<times> (string, string) dbh_row list) list" where
  "dbh_folder = [(''92201_2023.csv'', dbh_gap), (''notes.txt'', []), (''92202_2023.CSV'', dbh_plain)]"

definition dbh_summary :: "dbh_daily list" where
  "dbh_summary =
     [\<lparr>Sensor_ID_key = ''92201'', Timestamp_key = (2023, 7, 4), Min_Size = Some 100,
       Max_Size = Some 130, Growth_mm = Some 30, Growth_cm = Some 3\<rparr>,
      \<lparr>Sensor_ID_key = ''92201'', Timestamp_key = (2023, 7, 5), Min_Size = None,
       Max_Size = None, Growth_mm = None, Growth_cm = None\<rparr>,
      \<lparr>Sensor_ID_key = ''92201'', Timestamp_key = (2023, 7, 6), Min_Size = Some 140,
       Max_Size = Some 140, Growth_mm = Some 0, Growth_cm = Some 0\<rparr>,
      \<lparr>Sensor_ID_key = ''92202'', Timestamp_key = (2023, 7, 4), Min_Size = Some 50,
       Max_Size = Some 500, Growth_mm = Some 450, Growth_cm = Some 45\<rparr>]"

text \<open>A file in time order with a size that is not a number after the 8890, and its
  folder.\<close>

definition dbh_gap_after_rollover :: "(string, string) dbh_row list" where
  "dbh_gap_after_rollover =
     [dbh_header, dbh_line ''2023.07.04 16:00'' ''8890'', dbh_line ''2023.07.04 16:10'' ''n/a'',
      dbh_line ''2023.07.04 16:20'' ''50'']"

definition dbh_gap_folder :: "(string \<times> (string, string) dbh_row list) list" where
  "dbh_gap_folder = [(''92203_2023.csv'', dbh_gap_after_rollover)]"

definition dbh_gap_summary :: "dbh_daily list" where
  "dbh_gap_summary =
     [\<lparr>Sensor_ID_key = ''92203'', Timestamp_key = (2023, 7, 4), Min_Size = Some 8890,
       Max_Size = Some 8940, Growth_mm = Some 50, Growth_cm = Some 5\<rparr>]"



text \<open>A file whose second timestamp has a month and a day of one digit.\<close>

definition dbh_unpadded :: "(string, string) dbh_row list" where
  "dbh_unpadded =
     [dbh_header, dbh_line ''2023.07.04 15:50'' ''100'', dbh_line ''2023.7.4 16:00'' ''120'']"

text \<open>A climate folder in which two files have the station id \<open>A1\<close>.\<close>

definition climate_later :: "string climate_row list" where
  "climate_later =
     [climate_line ''2023.08.01 09:00'' (Some 25) (Some 24) (Some 23) (Some 310) (Some 1)]"

definition climate_later_daily :: "daily_row list" where
  "climate_later_daily =
     [\<lparr>Date = (2023, 8, 1), T1_Min = Some 25, T1_Max = Some 25, T2_Min = Some 24,
       T2_Max = Some 24, T3_Min = Some 23, T3_Max = Some 23, Soil_Min = Some 310,
       Soil_Max = Some 310, Shake_Max = Some 1, Rows = 1\<rparr>]"

definition climate_folder :: "(string \<times> string climate_row list) list" where
  "climate_folder =
     [(''A1_2022.csv'', climate_sample), (''B7_2022.csv'', climate_sample),
      (''README.txt'', []), (''A1_2023.csv'', climate_later)]"

section \<open>Properties\<close>

subsection \<open>Rounding to float64\<close>

lemma pow2_powi: "pow2 e = 2 powi e"
  by (simp add: pow2_def power_int_def inverse_eq_divide power_one_over)

lemma pow2_pos: "0 < pow2 e"
  by (simp add: pow2_powi)

lemma pow2_add: "pow2 (a + b) = pow2 a * pow2 b"
  by (simp add: pow2_powi power_int_add)

lemma pow2_mono: "a \<le> b \<Longrightarrow> pow2 a \<le> pow2 b"
  by (simp add: pow2_powi power_int_increasing)


lemma pow2_nat: "0 \<le> e \<Longrightarrow> pow2 e = of_int (2 ^ nat e)"
  by (simp add: pow2_def)

lemma pow2_diff_nat:
  assumes "0 < m" shows "pow2 (bitlen n - bitlen m) = 2 ^ nat (bitlen n) / 2 ^ nat (bitlen m)"
proof -
  have "pow2 (bitlen n - bitlen m) = pow2 (bitlen n) * pow2 (- bitlen m)"
    using pow2_add [of "bitlen n" "- bitlen m"] by simp
  moreover have "pow2 (bitlen n) = 2 ^ nat (bitlen n)"
    by (simp add: pow2_def bitlen_nonneg)
  moreover have "pow2 (- bitlen m) = 1 / 2 ^ nat (bitlen m)"
    using bitlen_nonneg [of m] by (cases "bitlen m = 0") (simp_all add: pow2_def)
  ultimately show ?thesis by simp
qed

lemma floor_log2_bounds:
  assumes "0 < a"
  shows "pow2 (floor_log2 a) \<le> a" and "a < pow2 (floor_log2 a + 1)"
proof -
  obtain n d where qa: "quotient_of a = (n, d)" by (cases "quotient_of a")
  have d: "0 < d" using qa by (rule quotient_of_denom_pos)
  have a: "a = of_int n / of_int d" using qa by (rule quotient_of_div)
  have n: "0 < n" using assms d unfolding a by (simp add: zero_less_divide_iff)
  define k where "k = bitlen n - bitlen d"
  have bn: "2 ^ nat (bitlen n - 1) \<le> n" "n < 2 ^ nat (bitlen n)"
    using bitlen_bounds [OF n] by simp_all
  have bd: "2 ^ nat (bitlen d - 1) \<le> d" "d < 2 ^ nat (bitlen d)"
    using bitlen_bounds [OF d] by simp_all
  have bn1: "1 \<le> bitlen n" using n by (simp add: bitlen_alt_def)
  have bd1: "1 \<le> bitlen d" using d by (simp add: bitlen_alt_def)
  have rn: "(2::rat) ^ nat (bitlen n - 1) \<le> of_int n" "(of_int n :: rat) < 2 ^ nat (bitlen n)"
    using bn by (metis of_int_le_iff of_int_numeral of_int_power, metis of_int_less_iff of_int_numeral of_int_power)
  have rd: "(2::rat) ^ nat (bitlen d - 1) \<le> of_int d" "(of_int d :: rat) < 2 ^ nat (bitlen d)"
    using bd by (metis of_int_le_iff of_int_numeral of_int_power, metis of_int_less_iff of_int_numeral of_int_power)
  have dpos: "(0::rat) < of_int d" using d by simp
  have lower: "pow2 (k - 1) \<le> a"
  proof -
    have "k - 1 = (bitlen n - 1) + (- bitlen d)"
      unfolding k_def by simp
    then have "pow2 (k - 1) = pow2 ((bitlen n - 1) + (- bitlen d))"
      by (rule arg_cong)
    also have "\<dots> = pow2 (bitlen n - 1) * pow2 (- bitlen d)"
      by (rule pow2_add)
    also have "pow2 (bitlen n - 1) = 2 ^ nat (bitlen n - 1)"
      using bn1 by (simp add: pow2_def)
    also have "pow2 (- bitlen d) = 1 / 2 ^ nat (bitlen d)"
      using bd1 by (simp add: pow2_def)
    finally have "pow2 (k - 1) = 2 ^ nat (bitlen n - 1) / 2 ^ nat (bitlen d)" by simp
    also have "\<dots> \<le> of_int n / 2 ^ nat (bitlen d)"
      using rn(1) by (simp add: divide_right_mono)
    also have "\<dots> \<le> of_int n / of_int d"
      using rd(2) dpos n by (intro divide_left_mono) simp_all
    finally show ?thesis unfolding a .
  qed
  have upper: "a < pow2 (k + 1)"
  proof -
    have "k + 1 = bitlen n + (- (bitlen d - 1))"
      unfolding k_def by simp
    then have "pow2 (k + 1) = pow2 (bitlen n + (- (bitlen d - 1)))"
      by (rule arg_cong)
    also have "\<dots> = pow2 (bitlen n) * pow2 (- (bitlen d - 1))"
      by (rule pow2_add)
    also have "pow2 (bitlen n) = 2 ^ nat (bitlen n)"
      using bn1 by (simp add: pow2_def)
    also have "pow2 (- (bitlen d - 1)) = 1 / 2 ^ nat (bitlen d - 1)"
      using bd1 by (cases "bitlen d = 1") (simp_all add: pow2_def)
    finally have e: "pow2 (k + 1) = 2 ^ nat (bitlen n) / 2 ^ nat (bitlen d - 1)" by simp
    have "a \<le> of_int n / 2 ^ nat (bitlen d - 1)"
      unfolding a using rd(1) dpos n by (intro divide_left_mono) simp_all
    also have "\<dots> < 2 ^ nat (bitlen n) / 2 ^ nat (bitlen d - 1)"
      using rn(2) by (simp add: divide_strict_right_mono)
    finally show ?thesis unfolding e .
  qed
  have fl: "floor_log2 a = (if pow2 k \<le> a then k else k - 1)"
    unfolding floor_log2_def qa k_def by (simp add: Let_def)
  show "pow2 (floor_log2 a) \<le> a"
    unfolding fl using lower by simp
  show "a < pow2 (floor_log2 a + 1)"
    unfolding fl using upper by (auto simp: not_le)
qed





lemma round_half_even_floor:
  "\<lfloor>x\<rfloor> \<le> round_half_even x" "round_half_even x \<le> \<lfloor>x\<rfloor> + 1"
  by (simp_all add: round_half_even_def Let_def)

text \<open>The result is a float64 number: a mantissa of at most 53 bits and an exponent from
  \<open>- 1074\<close> on.\<close>

lemma round_double_float64:
  "\<exists>m e. \<bar>m\<bar> \<le> 2 ^ 53 \<and> - 1074 \<le> e \<and> round_double q = of_int m * pow2 e"
proof (cases "q = 0")
  case True
  have "\<bar>0 :: int\<bar> \<le> 2 ^ 53 \<and> - 1074 \<le> (0 :: int) \<and> round_double q = of_int 0 * pow2 0"
    using True by (simp add: round_double_def)
  then show ?thesis by blast
next
  case False
  define a where "a = \<bar>q\<bar>"
  define e where "e = floor_log2 a"
  define k where "k = max (e - 52) (- 1074)"
  define u where "u = pow2 k"
  define m where "m = round_half_even (a / u)"
  define s :: int where "s = (if 0 < q then 1 else - 1)"
  have apos: "0 < a" using False unfolding a_def by simp
  have upos: "0 < u" unfolding u_def by (rule pow2_pos)
  have rd: "round_double q = sgn q * of_int m * u"
    using False unfolding round_double_def Let_def a_def e_def u_def k_def m_def by simp
  have sg: "sgn q = of_int s" using False unfolding s_def by (simp add: sgn_if)
  have "e + 1 \<le> k + 53" unfolding k_def by simp
  then have "pow2 (e + 1) \<le> pow2 (k + 53)" by (rule pow2_mono)
  also have "\<dots> = u * 2 ^ 53" unfolding u_def pow2_add by (simp add: pow2_def)
  finally have "a < u * 2 ^ 53"
    using floor_log2_bounds(2) [OF apos] unfolding e_def by simp
  then have lt: "a / u < 2 ^ 53" using upos by (simp add: pos_divide_less_eq mult.commute)
  have ge: "0 \<le> a / u" using apos upos by simp
  define f where "f = \<lfloor>a / u\<rfloor>"
  have f1: "f < 2 ^ 53" unfolding f_def using lt by (simp add: floor_less_iff)
  have f0: "0 \<le> f" unfolding f_def using ge by simp
  have "f \<le> m" "m \<le> f + 1"
    unfolding f_def m_def by (rule round_half_even_floor)+
  then have m0: "0 \<le> m" and m1: "m \<le> 2 ^ 53"
    using f0 f1 by linarith+
  have "\<bar>s * m\<bar> \<le> 2 ^ 53" using m0 m1 unfolding s_def by (simp add: abs_mult)
  moreover have "- 1074 \<le> k" unfolding k_def by simp
  moreover have "round_double q = of_int (s * m) * pow2 k"
    unfolding rd sg u_def by simp
  ultimately show ?thesis by blast
qed

subsection \<open>The range of \<open>datetime\<close>\<close>








subsection \<open>Columns, sorting, groups\<close>

lemma apply_col_Inr_D:
  assumes "apply_col f get put df = Inr df'"
  shows "df' = map (\<lambda>(i, r). (i, put r (projr (f (get r))))) df
         \<and> (\<forall>(i, r)\<in>set df. \<exists>v. f (get r) = Inr v)"
  using assms
  by (induction f get put df arbitrary: df' rule: apply_col.induct) (auto split: sum.splits)

lemma apply_col_Inl_D:
  assumes "apply_col f get put df = Inl e"
  shows "\<exists>(i, r)\<in>set df. f (get r) = Inl e"
  using assms by (induction f get put df rule: apply_col.induct) (auto split: sum.splits)

lemma apply_col_Inl_I:
  assumes "(i, r) \<in> set df" and "f (get r) = Inl e0"
  shows "\<exists>e. apply_col f get put df = Inl e"
  using assms by (induction f get put df rule: apply_col.induct) (auto split: sum.splits)

lemma apply_col_total:
  assumes "\<forall>(i, r)\<in>set df. \<exists>v. f (get r) = Inr v"
  shows "\<exists>df'. apply_col f get put df = Inr df'"
  using assms by (induction f get put df rule: apply_col.induct) (auto split: sum.splits)

lemma snd_set_read: "snd ` set (zip [0..<length rows] rows) = set rows"
proof -
  have "map snd (zip [0..<length rows] rows) = rows"
    by simp
  then show ?thesis by (metis set_map)
qed

lemma stable_argsort_ok: "argsort_ok stable_argsort"
  unfolding argsort_ok_def stable_argsort_def by simp

lemma pylib0_ok: "argsort_ok (argsort pylib0)"
  by (simp add: pylib0_def stable_argsort_ok)

text \<open>Sorting moves the rows and loses none.\<close>

lemma mset_sort_values:
  assumes "argsort_ok (argsort L)"
  shows "mset (sort_values L col df) = mset df"
proof -
  define present where "present = filter (\<lambda>(i, r). col r \<noteq> None) df"
  define missing where "missing = filter (\<lambda>(i, r). col r = None) df"
  define idx where "idx = argsort L (map (\<lambda>(i, r). the (col r)) present)"
  have "mset idx = mset [0..<length present]"
    using assms unfolding argsort_ok_def idx_def by (metis length_map)
  then have "mset (map (\<lambda>p. present ! p) idx)
      = mset (map (\<lambda>p. present ! p) [0..<length present])"
    by (metis mset_map)
  then have "mset (map (\<lambda>p. present ! p) idx) = mset present"
    by (simp add: map_nth)
  moreover have "mset present + mset missing = mset df"
    unfolding present_def missing_def by (induction df) auto
  ultimately show ?thesis
    unfolding sort_values_def Let_def present_def missing_def idx_def by simp
qed

subsection \<open>The timestamp normalizer\<close>







subsection \<open>A timestamp the parser rejects\<close>

lemma convert_to_eastern_error:
  "convert_to_eastern L s = Inl e \<Longrightarrow> e = ParseError \<or> e = OverflowError"
  by (auto simp: convert_to_eastern_def Let_def split: option.splits if_splits)

lemma compute_dbh_df_timestamp_error:
  assumes "convert_to_eastern L (dbh_Timestamp r) = Inl e0" and "r \<in> set (drop start_row raw)"
  shows "\<exists>e. compute_dbh_df L raw start_row = Inl e
           \<and> (\<exists>r'\<in>set (drop start_row raw). convert_to_eastern L (dbh_Timestamp r') = Inl e)"
proof -
  define rows where "rows = drop start_row raw"
  define df where "df = zip [0..<length rows] rows"
  have s: "snd ` set df = set rows"
    unfolding df_def by (rule snd_set_read)
  then have "r \<in> snd ` set df"
    using assms(2) unfolding rows_def by simp
  then obtain i where x: "(i, r) \<in> set df" by auto
  obtain e where e: "apply_col (convert_to_eastern L) dbh_Timestamp set_Timestamp df = Inl e"
    using apply_col_Inl_I [where f = "convert_to_eastern L" and get = dbh_Timestamp
        and put = set_Timestamp, OF x assms(1)] by blast
  then have "\<exists>(i, r)\<in>set df. convert_to_eastern L (dbh_Timestamp r) = Inl e"
    by (rule apply_col_Inl_D)
  then obtain j r' where r': "(j, r') \<in> set df" "convert_to_eastern L (dbh_Timestamp r') = Inl e"
    by blast
  have "r' \<in> set rows" using r'(1) s by force
  moreover have "compute_dbh_df L raw start_row = Inl e"
    using e unfolding compute_dbh_df_def Let_def rows_def [symmetric] df_def [symmetric] by simp
  ultimately show ?thesis using r'(2) unfolding rows_def by blast
qed

lemma all_data_error:
  assumes "(file, raw) \<in> set folder" and "endswith (lower file) ''.csv''"
    and "compute_dbh_df L raw 1 = Inl e"
  shows "\<exists>e'. all_data L folder = Inl e'"
  using assms
proof (induction folder)
  case Nil
  then show ?case by simp
next
  case (Cons a folder)
  obtain f w where a: "a = (f, w)" by (cases a)
  show ?case
  proof (cases "(file, raw) = a")
    case True
    then show ?thesis using Cons.prems a by simp
  next
    case False
    then have "\<exists>e'. all_data L folder = Inl e'" using Cons by auto
    then show ?thesis unfolding a by (auto simp: Let_def split: sum.splits)
  qed
qed

text \<open>
  C8, as the code has it. The claim as written fails at a string that is not in the
  fixed format and that the parser reads all the same: \<open>2023.7.4 16:00\<close>, with a month
  and a day of one digit, is converted to 2023-07-04 12:00, and a file that holds it is
  processed to the end.
\<close>

theorem unpadded_timestamp_is_read:
  "\<not> fixed_format ''2023.7.4 16:00''
   \<and> convert_to_eastern pylib0 ''2023.7.4 16:00''
       = Inr \<lparr>year = 2023, month = 7, day = 4, hour = 12, minute = 0\<rparr>
   \<and> sizes_of (compute_dbh_df pylib0 dbh_unpadded 1)
       = Inr [(0, (2023, 7, 4, 11, 50), Some 100), (1, (2023, 7, 4, 12, 0), Some 120)]"
proof -
  have "\<not> fixed_format ''2023.7.4 16:00''"
    by code_simp
  moreover have "convert_to_eastern pylib0 ''2023.7.4 16:00''
       = Inr \<lparr>year = 2023, month = 7, day = 4, hour = 12, minute = 0\<rparr>"
    by code_simp
  moreover have "sizes_of (compute_dbh_df pylib0 dbh_unpadded 1)
       = Inr [(0, (2023, 7, 4, 11, 50), Some 100), (1, (2023, 7, 4, 12, 0), Some 120)]"
    by code_simp
  ultimately show ?thesis by (intro conjI)
qed

text \<open>
  C8, amended to the strings that the parser rejects. When \<open>datetime.strptime\<close> rejects a
  timestamp for the format \<open>%Y.%m.%d %H:%M\<close>, \<open>convert_to_eastern\<close> fails with the parse
  error. Nothing catches it: on a file that has the timestamp in a data row
  \<open>compute_dbh_df\<close> fails, with the error of the first data row whose timestamp cannot
  be converted, which is the parse error unless a row raises \<open>OverflowError\<close>; and
  \<open>process_dbh_folder\<close> and the whole run end with an error when the folder holds such a
  file.
\<close>

theorem malformed_timestamp_aborts_run:
  assumes "strptime L s = None"
    and "r \<in> set (drop 1 raw)" and "dbh_Timestamp r = s"
    and "(file, raw) \<in> set folder" and "endswith (lower file) ''.csv''"
  shows "convert_to_eastern L s = Inl ParseError
       \<and> (\<exists>e. compute_dbh_df L raw 1 = Inl e \<and> (e = ParseError \<or> e = OverflowError)
              \<and> (\<exists>r'\<in>set (drop 1 raw). convert_to_eastern L (dbh_Timestamp r') = Inl e))
       \<and> ((\<forall>r'\<in>set (drop 1 raw). convert_to_eastern L (dbh_Timestamp r') \<noteq> Inl OverflowError)
            \<longrightarrow> compute_dbh_df L raw 1 = Inl ParseError)
       \<and> (\<exists>e. process_dbh_folder L folder fs = Inl e)
       \<and> (\<exists>e. main L extract_folder folder fs = Inl e)"
proof -
  have n: "convert_to_eastern L (dbh_Timestamp r) = Inl ParseError"
    using assms(1,3) by (simp add: convert_to_eastern_def)
  obtain e r' where c: "compute_dbh_df L raw 1 = Inl e" "r' \<in> set (drop 1 raw)"
      "convert_to_eastern L (dbh_Timestamp r') = Inl e"
    using compute_dbh_df_timestamp_error [OF n assms(2)] by blast
  have k: "e = ParseError \<or> e = OverflowError"
    using c(3) by (rule convert_to_eastern_error)
  have c1: "\<exists>e. compute_dbh_df L raw 1 = Inl e \<and> (e = ParseError \<or> e = OverflowError)
              \<and> (\<exists>r'\<in>set (drop 1 raw). convert_to_eastern L (dbh_Timestamp r') = Inl e)"
    using c k by blast
  have c2: "(\<forall>r'\<in>set (drop 1 raw). convert_to_eastern L (dbh_Timestamp r') \<noteq> Inl OverflowError)
            \<longrightarrow> compute_dbh_df L raw 1 = Inl ParseError"
    using c k by blast
  obtain e' where a: "all_data L folder = Inl e'"
    using all_data_error [OF assms(4,5) c(1)] by blast
  have p: "process_dbh_folder L folder fs' = Inl e'" for fs'
    by (simp add: process_dbh_folder_def a)
  then have p': "\<exists>e. process_dbh_folder L folder fs = Inl e" by blast
  have m: "\<exists>e. main L extract_folder folder fs = Inl e"
    by (simp add: main_def p split: sum.splits)
  have n': "convert_to_eastern L s = Inl ParseError"
    using n assms(3) by simp
  from n' c1 c2 p' m show ?thesis by (intro conjI)
qed

theorem malformed_timestamp_aborts_run_witness:
  "strptime pylib0 ''2023-07-04 16:10'' = None
   \<and> dbh_line ''2023-07-04 16:10'' ''120'' \<in> set (drop 1 dbh_malformed)
   \<and> endswith (lower ''92201_2023.CSV'') ''.csv''
   \<and> convert_to_eastern pylib0 ''2023-07-04 16:10'' = Inl ParseError
   \<and> list_all (\<lambda>r'. convert_to_eastern pylib0 (dbh_Timestamp r') \<noteq> Inl OverflowError)
        (drop 1 dbh_malformed)
   \<and> compute_dbh_df pylib0 dbh_malformed 1 = Inl ParseError
   \<and> (\<exists>e. process_dbh_folder pylib0 [(''92201_2023.CSV'', dbh_malformed)] Map.empty = Inl e)
   \<and> (\<exists>e. main pylib0 [] [(''92201_2023.CSV'', dbh_malformed)] Map.empty = Inl e)"
proof -
  have h1: "strptime pylib0 ''2023-07-04 16:10'' = None"
    by code_simp
  have h2: "dbh_line ''2023-07-04 16:10'' ''120'' \<in> set (drop 1 dbh_malformed)"
    by (simp add: dbh_malformed_def)
  have h3: "dbh_Timestamp (dbh_line ''2023-07-04 16:10'' ''120'') = ''2023-07-04 16:10''"
    by (simp add: dbh_line_def)
  have h4: "(''92201_2023.CSV'', dbh_malformed) \<in> set [(''92201_2023.CSV'', dbh_malformed)]"
    by simp
  have h5: "endswith (lower ''92201_2023.CSV'') ''.csv''"
    by code_simp
  have h6: "list_all (\<lambda>r'. convert_to_eastern pylib0 (dbh_Timestamp r') \<noteq> Inl OverflowError)
        (drop 1 dbh_malformed)"
    by code_simp
  then have h7: "\<forall>r'\<in>set (drop 1 dbh_malformed).
      convert_to_eastern pylib0 (dbh_Timestamp r') \<noteq> Inl OverflowError"
    unfolding list_all_iff .
  note t = malformed_timestamp_aborts_run [OF h1 h2 h3 h4 h5, of Map.empty "[]"]
  have c: "compute_dbh_df pylib0 dbh_malformed 1 = Inl ParseError"
    using t h7 by blast
  from t h1 h2 h5 h6 c show ?thesis by blast
qed

subsection \<open>The rollover correction\<close>

text \<open>The frame of \<open>compute_dbh_df\<close> before the rollover step: every data row of the file
  once, under its label, with its Size token converted.\<close>

lemma coerced_frame:
  assumes ok: "argsort_ok (argsort L)"
    and df1: "apply_col (convert_to_eastern L) dbh_Timestamp set_Timestamp
                (zip [0..<length rows] rows) = Inr df1"
    and df3: "df3 = map (\<lambda>(i, r). (i, set_Size r (to_numeric L (Size r))))
                (sort_values L (\<lambda>r. Some (dbh_Timestamp r)) df1)"
  shows "mset (map fst df3) = mset [0..<length rows]"
    and "\<forall>(i, r)\<in>set df3. i < length rows \<and> Size r = to_numeric L (Size (rows ! i))"
proof -
  define df0 where "df0 = zip [0..<length rows] rows"
  define df2 where "df2 = sort_values L (\<lambda>r. Some (dbh_Timestamp r)) df1"
  have d1: "df1 = map (\<lambda>(i, r). (i, set_Timestamp r
              (projr (convert_to_eastern L (dbh_Timestamp r))))) df0"
    using apply_col_Inr_D [OF df1] unfolding df0_def by blast
  have m2: "mset df2 = mset df1"
    unfolding df2_def using ok by (rule mset_sort_values)
  have f0: "map fst df0 = [0..<length rows]"
    unfolding df0_def by simp
  have f1: "map fst df1 = map fst df0"
    unfolding d1 by (simp add: case_prod_beta)
  have f3: "map fst df3 = map fst df2"
    unfolding df3 df2_def by (simp add: case_prod_beta)
  have "mset (map fst df2) = mset (map fst df1)"
    using m2 by (metis mset_map)
  then show "mset (map fst df3) = mset [0..<length rows]"
    using f0 f1 f3 by simp
  have s2: "set df2 = set df1"
    using m2 by (rule mset_eq_setD)
  have in0: "i < length rows \<and> r = rows ! i" if "(i, r) \<in> set df0" for i r
    using that unfolding df0_def by (auto simp: set_zip)
  have in1: "i < length rows \<and> Size r = Size (rows ! i)" if "(i, r) \<in> set df1" for i r
    using that in0 unfolding d1 by (auto simp: set_Timestamp_def)
  show "\<forall>(i, r)\<in>set df3. i < length rows \<and> Size r = to_numeric L (Size (rows ! i))"
    unfolding df3 df2_def [symmetric] using in1 s2 by (auto simp: set_Size_def)
qed

lemma compute_dbh_df_steps:
  assumes "apply_col (convert_to_eastern L) dbh_Timestamp set_Timestamp
             (zip [0..<length (drop start_row raw)] (drop start_row raw)) = Inr df1"
  shows "compute_dbh_df L raw start_row
     = rollover_correction (map (\<lambda>(i, r). (i, set_Size r (to_numeric L (Size r))))
                (sort_values L (\<lambda>r. Some (dbh_Timestamp r)) df1))"
  unfolding compute_dbh_df_def Let_def assms by simp

lemma rollover_correction_Inr_D:
  assumes "rollover_correction df = Inr out"
  shows "\<exists>pos. out = take pos df @ map (add_baseline 8890) (drop pos df)
           \<and> (filter (\<lambda>(i, r). Size r = Some 8890) df = [] \<longrightarrow> pos = length df)"
proof (cases "filter (\<lambda>(i, r). Size r = Some 8890) df = []")
  case True
  then have "out = df" using assms by (simp add: rollover_correction_def)
  then have "out = take (length df) df @ map (add_baseline 8890) (drop (length df) df)"
    by simp
  then show ?thesis by blast
next
  case False
  then show ?thesis using assms
    by (auto simp: rollover_correction_def Let_def split: sum.splits)
qed

lemma rollover_correction_none:
  assumes "\<forall>(i, r)\<in>set df. Size r \<noteq> Some 8890"
  shows "rollover_correction df = Inr df"
proof -
  have "filter (\<lambda>(i, r). Size r = Some 8890) df = []"
    using assms by (auto simp: filter_empty_conv)
  then show ?thesis by (simp add: rollover_correction_def)
qed

lemma compute_dbh_df_Inr_D:
  assumes ok: "argsort_ok (argsort L)"
    and out: "compute_dbh_df L raw start_row = Inr out"
  shows "\<exists>df pos. out = take pos df @ map (add_baseline 8890) (drop pos df)
           \<and> mset (map fst df) = mset [0..<length (drop start_row raw)]
           \<and> (\<forall>(i, r)\<in>set df. i < length (drop start_row raw)
                  \<and> Size r = to_numeric L (Size (drop start_row raw ! i)))
           \<and> (filter (\<lambda>(i, r). Size r = Some 8890) df = [] \<longrightarrow> pos = length df)"
proof -
  define rows where "rows = drop start_row raw"
  obtain df1 where df1: "apply_col (convert_to_eastern L) dbh_Timestamp set_Timestamp
                (zip [0..<length rows] rows) = Inr df1"
    using out unfolding compute_dbh_df_def Let_def rows_def [symmetric]
    by (auto split: sum.splits)
  define df3 where "df3 = map (\<lambda>(i, r). (i, set_Size r (to_numeric L (Size r))))
                (sort_values L (\<lambda>r. Some (dbh_Timestamp r)) df1)"
  note cf = coerced_frame [OF ok df1 df3_def]
  have "rollover_correction df3 = Inr out"
    using compute_dbh_df_steps [OF df1 [unfolded rows_def]] out unfolding df3_def by simp
  then show ?thesis
    using rollover_correction_Inr_D cf unfolding rows_def by blast
qed

lemma no_8890_in_frame:
  assumes "\<forall>r\<in>set rows. to_numeric L (Size r) \<noteq> Some 8890"
    and "\<forall>(i, r)\<in>set df. i < length rows \<and> Size r = to_numeric L (Size (rows ! i))"
  shows "\<forall>(i, r)\<in>set df. Size r \<noteq> Some 8890"
proof (clarify)
  fix i r assume "(i, r) \<in> set df" and s: "Size r = Some 8890"
  then have "i < length rows" and "Size r = to_numeric L (Size (rows ! i))"
    using assms(2) by auto
  then show False using assms(1) s by (metis nth_mem)
qed

lemma compute_dbh_df_Inl_D:
  assumes no: "\<forall>r\<in>set (drop start_row raw). to_numeric L (Size r) \<noteq> Some 8890"
    and ok: "argsort_ok (argsort L)"
    and out: "compute_dbh_df L raw start_row = Inl e"
  shows "(e = ParseError \<or> e = OverflowError)
       \<and> (\<exists>r\<in>set (drop start_row raw). convert_to_eastern L (dbh_Timestamp r) = Inl e)"
proof -
  define rows where "rows = drop start_row raw"
  show ?thesis
  proof (cases "apply_col (convert_to_eastern L) dbh_Timestamp set_Timestamp
                (zip [0..<length rows] rows)")
    case (Inl e')
    then have "e' = e"
      using out unfolding compute_dbh_df_def Let_def rows_def [symmetric] by simp
    moreover have "\<exists>(i, r)\<in>set (zip [0..<length rows] rows).
        convert_to_eastern L (dbh_Timestamp r) = Inl e'"
      using Inl by (rule apply_col_Inl_D)
    ultimately obtain i r where r: "(i, r) \<in> set (zip [0..<length rows] rows)"
        "convert_to_eastern L (dbh_Timestamp r) = Inl e"
      by blast
    have "snd ` set (zip [0..<length rows] rows) = set rows"
      by (rule snd_set_read)
    then have "r \<in> set rows" using r(1) by force
    then show ?thesis
      using r(2) convert_to_eastern_error [OF r(2)] unfolding rows_def by blast
  next
    case (Inr df1)
    define df3 where "df3 = map (\<lambda>(i, r). (i, set_Size r (to_numeric L (Size r))))
                (sort_values L (\<lambda>r. Some (dbh_Timestamp r)) df1)"
    have "\<forall>(i, r)\<in>set df3. i < length rows \<and> Size r = to_numeric L (Size (rows ! i))"
      using coerced_frame [OF ok Inr df3_def] by blast
    then have "\<forall>(i, r)\<in>set df3. Size r \<noteq> Some 8890"
      using no no_8890_in_frame unfolding rows_def [symmetric] by blast
    then have "rollover_correction df3 = Inr df3"
      by (rule rollover_correction_none)
    then have "compute_dbh_df L raw start_row = Inr df3"
      using compute_dbh_df_steps [OF Inr [unfolded rows_def]] unfolding df3_def by simp
    then show ?thesis using out by simp
  qed
qed

text \<open>
  C2. When no data row of the file has a Size that converts to 8890, the rollover step
  returns its frame as it is, and \<open>compute_dbh_df\<close> can only fail on a timestamp
  (with the exception that \<open>convert_to_eastern\<close> raises on a data row);
  otherwise its result holds every data row once, and the row labelled \<open>i\<close> carries the
  number that the Size token of the file's \<open>i\<close>-th data row denotes.
\<close>

theorem no_rollover_sizes_unchanged:
  assumes ok: "argsort_ok (argsort L)"
    and no: "\<forall>r\<in>set (drop start_row raw). to_numeric L (Size r) \<noteq> Some 8890"
  shows "(\<forall>df. (\<forall>(i, r)\<in>set df. Size r \<noteq> Some 8890) \<longrightarrow> rollover_correction df = Inr df)
       \<and> (case compute_dbh_df L raw start_row of
            Inl e \<Rightarrow>
              (e = ParseError \<or> e = OverflowError)
              \<and> (\<exists>r\<in>set (drop start_row raw). convert_to_eastern L (dbh_Timestamp r) = Inl e)
          | Inr out \<Rightarrow>
              mset (map fst out) = mset [0..<length (drop start_row raw)]
              \<and> (\<forall>(i, r)\<in>set out. Size r = to_numeric L (Size (drop start_row raw ! i))))"
proof -
  have "case compute_dbh_df L raw start_row of
            Inl e \<Rightarrow>
              (e = ParseError \<or> e = OverflowError)
              \<and> (\<exists>r\<in>set (drop start_row raw). convert_to_eastern L (dbh_Timestamp r) = Inl e)
          | Inr out \<Rightarrow>
              mset (map fst out) = mset [0..<length (drop start_row raw)]
              \<and> (\<forall>(i, r)\<in>set out. Size r = to_numeric L (Size (drop start_row raw ! i)))"
  proof (cases "compute_dbh_df L raw start_row")
    case (Inl e)
    then show ?thesis using compute_dbh_df_Inl_D [OF no ok Inl] by simp
  next
    case (Inr out)
    define rows where "rows = drop start_row raw"
    obtain df pos where d: "out = take pos df @ map (add_baseline 8890) (drop pos df)"
        "mset (map fst df) = mset [0..<length rows]"
        "\<forall>(i, r)\<in>set df. i < length rows \<and> Size r = to_numeric L (Size (rows ! i))"
        "filter (\<lambda>(i, r). Size r = Some 8890) df = [] \<longrightarrow> pos = length df"
      using compute_dbh_df_Inr_D [OF ok Inr] unfolding rows_def by blast
    have "\<forall>(i, r)\<in>set df. Size r \<noteq> Some 8890"
      using d(3) no no_8890_in_frame unfolding rows_def [symmetric] by blast
    then have "filter (\<lambda>(i, r). Size r = Some 8890) df = []"
      by (auto simp: filter_empty_conv)
    then have "out = df" using d(1,4) by simp
    then show ?thesis using Inr d(2,3) unfolding rows_def by auto
  qed
  then show ?thesis using rollover_correction_none by blast
qed

theorem no_rollover_sizes_unchanged_witness:
  "argsort_ok (argsort pylib0)
   \<and> map (\<lambda>r. to_numeric pylib0 (Size r)) (drop 1 dbh_plain) = [Some 100, Some 500, Some 50]
   \<and> sizes_of (compute_dbh_df pylib0 dbh_plain 1)
       = Inr [(0, (2023, 7, 4, 12, 0), Some 100), (1, (2023, 7, 4, 12, 10), Some 500),
              (2, (2023, 7, 4, 12, 20), Some 50)]
   \<and> (case compute_dbh_df pylib0 dbh_plain 1 of
        Inl e \<Rightarrow>
          (e = ParseError \<or> e = OverflowError)
          \<and> (\<exists>r\<in>set (drop 1 dbh_plain). convert_to_eastern pylib0 (dbh_Timestamp r) = Inl e)
      | Inr out \<Rightarrow>
          mset (map fst out) = mset [0..<length (drop 1 dbh_plain)]
          \<and> list_all (\<lambda>(i, r). Size r = to_numeric pylib0 (Size (drop 1 dbh_plain ! i))) out)"
proof -
  have sz: "map (\<lambda>r. to_numeric pylib0 (Size r)) (drop 1 dbh_plain)
      = [Some 100, Some 500, Some 50]"
    by code_simp
  have "\<forall>c\<in>set (map (\<lambda>r. to_numeric pylib0 (Size r)) (drop 1 dbh_plain)). c \<noteq> Some 8890"
    unfolding sz by simp
  then have no: "\<forall>r\<in>set (drop 1 dbh_plain). to_numeric pylib0 (Size r) \<noteq> Some 8890"
    by simp
  have run: "sizes_of (compute_dbh_df pylib0 dbh_plain 1)
       = Inr [(0, (2023, 7, 4, 12, 0), Some 100), (1, (2023, 7, 4, 12, 10), Some 500),
              (2, (2023, 7, 4, 12, 20), Some 50)]"
    by code_simp
  from no_rollover_sizes_unchanged [OF pylib0_ok no]
  have "case compute_dbh_df pylib0 dbh_plain 1 of
        Inl e \<Rightarrow>
          (e = ParseError \<or> e = OverflowError)
          \<and> (\<exists>r\<in>set (drop 1 dbh_plain). convert_to_eastern pylib0 (dbh_Timestamp r) = Inl e)
      | Inr out \<Rightarrow>
          mset (map fst out) = mset [0..<length (drop 1 dbh_plain)]
          \<and> list_all (\<lambda>(i, r). Size r = to_numeric pylib0 (Size (drop 1 dbh_plain ! i))) out"
    by (auto simp: list_all_iff split: sum.splits)
  with pylib0_ok sz run show ?thesis by blast
qed

lemma get_loc_upt: "get_loc [a..<b] k = (if a \<le> k \<and> k < b then Some (k - a) else None)"
proof (induction "b - a" arbitrary: a)
  case 0
  then show ?case by simp
next
  case (Suc n)
  then have ab: "a < b" and n: "n = b - Suc a" by simp_all
  have "get_loc [a..<b] k = get_loc (a # [Suc a..<b]) k"
    using ab by (simp add: upt_conv_Cons)
  also have "\<dots> = (if a = k then Some 0 else map_option Suc (get_loc [Suc a..<b] k))"
    by simp
  also have "get_loc [Suc a..<b] k = (if Suc a \<le> k \<and> k < b then Some (k - Suc a) else None)"
    using Suc.hyps(1) [OF n] .
  finally show ?case using ab by (auto simp: Suc_diff_Suc)
qed

lemma slice_bound_left_upt:
  assumes "k \<le> n"
  shows "slice_bound_left [0..<n] k = Inr k"
proof (cases "k < n")
  case True
  then show ?thesis by (simp add: slice_bound_left_def get_loc_upt)
next
  case False
  then have "k = n" using assms by simp
  moreover have "filter (\<lambda>i. i < n) [0..<n] = [0..<n]"
    by (rule filter_True) simp
  ultimately show ?thesis by (simp add: slice_bound_left_def get_loc_upt)
qed

lemma last_filter:
  assumes "p < length xs" and "P (xs ! p)" and "\<forall>k. p < k \<and> k < length xs \<longrightarrow> \<not> P (xs ! k)"
  shows "filter P xs \<noteq> [] \<and> last (filter P xs) = xs ! p"
proof -
  have xs: "xs = take p xs @ xs ! p # drop (Suc p) xs"
    using assms(1) by (rule id_take_nth_drop)
  have "\<forall>x\<in>set (drop (Suc p) xs). \<not> P x"
  proof
    fix x assume "x \<in> set (drop (Suc p) xs)"
    then obtain j where "j < length (drop (Suc p) xs)" "x = drop (Suc p) xs ! j"
      by (metis in_set_conv_nth)
    then have "x = xs ! (Suc p + j)" "Suc p + j < length xs" by auto
    then show "\<not> P x" using assms(3) by simp
  qed
  then have "filter P (drop (Suc p) xs) = []" by (simp add: filter_empty_conv)
  then have "filter P xs = filter P (take p xs) @ [xs ! p]"
    using assms(2) by (subst xs) simp
  then show ?thesis by simp
qed

text \<open>On a frame whose labels ascend from 0 the label slice is the slice by position.\<close>

lemma rollover_correction_in_order:
  assumes lab: "map fst df = [0..<length df]"
    and p: "p < length df" and at: "Size (snd (df ! p)) = Some 8890"
    and after: "\<forall>k. p < k \<and> k < length df \<longrightarrow> Size (snd (df ! k)) \<noteq> Some 8890"
  shows "rollover_correction df
     = Inr (take (Suc p) df @ map (add_baseline 8890) (drop (Suc p) df))"
proof -
  define hits where "hits = filter (\<lambda>(i, r). Size r = Some 8890) df"
  have "hits \<noteq> [] \<and> last hits = df ! p"
    unfolding hits_def using p at after
    by (intro last_filter) (auto simp: case_prod_beta)
  then have ne: "map fst hits \<noteq> []" and l: "last (map fst hits) = fst (df ! p)"
    by (simp_all add: last_map)
  have "fst (df ! p) = map fst df ! p" using p by simp
  also have "\<dots> = p" unfolding lab using p by simp
  finally have lp: "last (map fst hits) = p" using l by simp
  have "slice_bound_left (map fst df) (Suc p) = Inr (Suc p)"
    unfolding lab using p by (intro slice_bound_left_upt) simp
  then show ?thesis
    using ne lp unfolding rollover_correction_def hits_def [symmetric] Let_def by simp
qed

text \<open>An ascending argsort leaves keys that already ascend strictly where they are,
  and so does the sort of a frame in strict time order.\<close>

lemma argsort_in_order:
  assumes ok: "argsort_ok srt" and inc: "sorted_wrt (<) (map dt_key ks)"
  shows "srt ks = [0..<length ks]"
proof (rule sorted_distinct_set_unique)
  define idx where "idx = srt ks"
  have m: "mset idx = mset [0..<length ks]"
    and s: "sorted (map (\<lambda>i. dt_key (ks ! i)) idx)"
    using ok unfolding argsort_ok_def idx_def by blast+
  have set: "set idx = {0..<length ks}"
    using m by (metis mset_eq_setD set_upt)
  have dist: "distinct idx"
    using m by (metis distinct_upt mset_eq_imp_distinct_iff)
  have key_lt: "dt_key (ks ! i) < dt_key (ks ! j)" if "i < j" "j < length ks" for i j
    using inc that by (simp add: sorted_wrt_iff_nth_less)
  have "sorted idx"
    unfolding sorted_iff_nth_mono
  proof (intro allI impI)
    fix a b assume ab: "a \<le> b" "b < length idx"
    have "dt_key (ks ! (idx ! a)) \<le> dt_key (ks ! (idx ! b))"
      using s ab by (simp add: sorted_iff_nth_mono)
    moreover have "idx ! a \<in> set idx" "idx ! b \<in> set idx"
      using ab by simp_all
    then have "idx ! a < length ks" "idx ! b < length ks"
      unfolding set by simp_all
    ultimately show "idx ! a \<le> idx ! b"
      using key_lt [of "idx ! b" "idx ! a"] by (meson not_le)
  qed
  then show "sorted (srt ks)" "distinct (srt ks)" "set (srt ks) = set [0..<length ks]"
    using dist set unfolding idx_def by simp_all
qed simp_all

lemma sort_values_in_order:
  assumes ok: "argsort_ok (argsort L)"
    and inc: "sorted_wrt (<) (map (\<lambda>(i, r). dt_key (col r)) df)"
  shows "sort_values L (\<lambda>r. Some (col r)) df = df"
proof -
  have p: "filter (\<lambda>(i, r). Some (col r) \<noteq> None) df = df"
    by (rule filter_True) auto
  have q: "filter (\<lambda>(i, r). Some (col r) = None) df = []"
    by (auto simp: filter_empty_conv)
  define ks where "ks = map (\<lambda>(i, r). the (Some (col r))) df"
  have "map dt_key ks = map (\<lambda>(i, r). dt_key (col r)) df"
    unfolding ks_def by (simp add: case_prod_beta)
  then have "sorted_wrt (<) (map dt_key ks)" using inc by simp
  then have "argsort L ks = [0..<length ks]"
    using ok by (rule argsort_in_order [rotated])
  then have "argsort L (map (\<lambda>(i, r). the (Some (col r))) df) = [0..<length df]"
    unfolding ks_def by simp
  then show ?thesis
    unfolding sort_values_def Let_def p q by (simp add: map_nth)
qed

text \<open>
  C1. On a file whose lines are in strict time order the sort moves nothing
  (\<open>sort_values_in_order\<close>), the labels are the positions, and the step adds 8890 to
  the rows after the last 8890 and to no other (\<open>rollover_correction_in_order\<close>): the
  sizes 100, 500, 8890, 50, 300 become 100, 500, 8890, 8940, 9190. The slice
  \<open>df.loc[last_8890_index + 1:]\<close> is taken by label, though, and the labels are the
  line numbers of the file, which the sort moves with the rows:
  \<^item> in \<open>dbh_unsorted\<close> the reading of 11:00 UTC follows the 8890 of 10:00 UTC in time
    and keeps its size 50, because its label 0 is not above the label 1 of the 8890;
  \<^item> in \<open>dbh_fall_back\<close>, a file in UTC order, the local times of the hour repeated at
    the end of daylight time put label 1 first, and the slice from label 1 shifts every
    row, the 8890 itself and the reading before it included;
  \<^item> in \<open>dbh_last_line\<close> the label after the 8890 does not exist and the index is in no
    order: the call fails with a \<open>KeyError\<close>.
\<close>

theorem rollover_slice_is_by_label:
  "sizes_of (compute_dbh_df pylib0 dbh_rollover 1)
     = Inr [(0, (2023, 7, 4, 12, 0), Some 100), (1, (2023, 7, 4, 12, 10), Some 500),
            (2, (2023, 7, 4, 12, 20), Some 8890), (3, (2023, 7, 4, 12, 30), Some 8940),
            (4, (2023, 7, 4, 12, 40), Some 9190)]
   \<and> sizes_of (compute_dbh_df pylib0 dbh_unsorted 1)
     = Inr [(1, (2023, 7, 4, 6, 0), Some 8890), (0, (2023, 7, 4, 7, 0), Some 50),
            (2, (2023, 7, 4, 8, 0), Some 9190)]
   \<and> sizes_of (compute_dbh_df pylib0 dbh_fall_back 1)
     = Inr [(1, (2023, 11, 5, 1, 15), Some 8940), (0, (2023, 11, 5, 1, 30), Some 17780),
            (2, (2023, 11, 5, 2, 0), Some 9190)]
   \<and> sizes_of (compute_dbh_df pylib0 dbh_last_line 1) = Inl KeyError"
proof -
  have "sizes_of (compute_dbh_df pylib0 dbh_rollover 1)
     = Inr [(0, (2023, 7, 4, 12, 0), Some 100), (1, (2023, 7, 4, 12, 10), Some 500),
            (2, (2023, 7, 4, 12, 20), Some 8890), (3, (2023, 7, 4, 12, 30), Some 8940),
            (4, (2023, 7, 4, 12, 40), Some 9190)]"
    by code_simp
  moreover have "sizes_of (compute_dbh_df pylib0 dbh_unsorted 1)
     = Inr [(1, (2023, 7, 4, 6, 0), Some 8890), (0, (2023, 7, 4, 7, 0), Some 50),
            (2, (2023, 7, 4, 8, 0), Some 9190)]"
    by code_simp
  moreover have "sizes_of (compute_dbh_df pylib0 dbh_fall_back 1)
     = Inr [(1, (2023, 11, 5, 1, 15), Some 8940), (0, (2023, 11, 5, 1, 30), Some 17780),
            (2, (2023, 11, 5, 2, 0), Some 9190)]"
    by code_simp
  moreover have "sizes_of (compute_dbh_df pylib0 dbh_last_line 1) = Inl KeyError"
    by code_simp
  ultimately show ?thesis by blast
qed

subsection \<open>Groups and aggregates\<close>

lemma set_dropna: "set (dropna col) = {v. Some v \<in> set col}"
  by (induction col rule: dropna.induct) auto

lemma fold_min_Min: "fold min vs (v::rat) = Min (set (v # vs))"
proof (induction vs arbitrary: v)
  case Nil
  then show ?case by simp
next
  case (Cons a vs)
  have "fold min (a # vs) v = fold min vs (min a v)" by simp
  also have "\<dots> = Min (set (min a v # vs))" by (rule Cons.IH)
  also have "\<dots> = Min (set (v # a # vs))"
    by (cases vs) (auto simp: min.commute min.left_commute min.assoc)
  finally show ?case .
qed

lemma fold_max_Max: "fold max vs (v::rat) = Max (set (v # vs))"
proof (induction vs arbitrary: v)
  case Nil
  then show ?case by simp
next
  case (Cons a vs)
  have "fold max (a # vs) v = fold max vs (max a v)" by simp
  also have "\<dots> = Max (set (max a v # vs))" by (rule Cons.IH)
  also have "\<dots> = Max (set (v # a # vs))"
    by (cases vs) (auto simp: max.commute max.left_commute max.assoc)
  finally show ?case .
qed

text \<open>The aggregations of the code are the null-safe minimum and maximum.\<close>

lemma agg_min_null_safe: "agg_min col = null_safe_min col"
  unfolding agg_min_def null_safe_min_def
  by (cases "dropna col") (simp_all add: fold_min_Min del: set_simps)

lemma agg_max_null_safe: "agg_max col = null_safe_max col"
  unfolding agg_max_def null_safe_max_def
  by (cases "dropna col") (simp_all add: fold_max_Max del: set_simps)

lemma null_safe_min_mset:
  "mset c1 = mset c2 \<Longrightarrow> null_safe_min c1 = null_safe_min c2"
  unfolding null_safe_min_def set_dropna by (metis mset_eq_setD)

lemma null_safe_max_mset:
  "mset c1 = mset c2 \<Longrightarrow> null_safe_max c1 = null_safe_max c2"
  unfolding null_safe_max_def set_dropna by (metis mset_eq_setD)

lemma no_value_iff: "{v. Some v \<in> set col} = {} \<longleftrightarrow> (\<forall>c\<in>set col. c = None)"
proof
  assume e: "{v. Some v \<in> set col} = {}"
  show "\<forall>c\<in>set col. c = None"
  proof
    fix c assume c: "c \<in> set col"
    show "c = None"
    proof (cases c)
      case None
      then show ?thesis .
    next
      case (Some v)
      then have "v \<in> {v. Some v \<in> set col}" using c by simp
      then show ?thesis using e by simp
    qed
  qed
next
  assume "\<forall>c\<in>set col. c = None"
  then show "{v. Some v \<in> set col} = {}" by auto
qed

lemma null_safe_min_None_iff: "null_safe_min col = None \<longleftrightarrow> (\<forall>c\<in>set col. c = None)"
  unfolding null_safe_min_def set_dropna no_value_iff by simp

lemma null_safe_max_None_iff: "null_safe_max col = None \<longleftrightarrow> (\<forall>c\<in>set col. c = None)"
  unfolding null_safe_max_def set_dropna no_value_iff by simp

lemma null_safe_min_Some_D:
  assumes "null_safe_min col = Some m"
  shows "Some m \<in> set col \<and> (\<forall>v. Some v \<in> set col \<longrightarrow> m \<le> v)"
proof -
  have ne: "set (dropna col) \<noteq> {}" and m: "m = Min (set (dropna col))"
    using assms unfolding null_safe_min_def by (auto split: if_splits)
  have "m \<in> set (dropna col)" unfolding m using ne by (intro Min_in) simp_all
  moreover have "\<forall>v\<in>set (dropna col). m \<le> v" unfolding m by simp
  ultimately show ?thesis unfolding set_dropna by simp
qed

lemma null_safe_max_Some_D:
  assumes "null_safe_max col = Some m"
  shows "Some m \<in> set col \<and> (\<forall>v. Some v \<in> set col \<longrightarrow> v \<le> m)"
proof -
  have ne: "set (dropna col) \<noteq> {}" and m: "m = Max (set (dropna col))"
    using assms unfolding null_safe_max_def by (auto split: if_splits)
  have "m \<in> set (dropna col)" unfolding m using ne by (intro Max_in) simp_all
  moreover have "\<forall>v\<in>set (dropna col). v \<le> m" unfolding m by simp
  ultimately show ?thesis unfolding set_dropna by simp
qed

lemma sort_remdups_cong:
  fixes xs ys :: "'a::linorder list"
  assumes "set xs = set ys"
  shows "sort (remdups xs) = sort (remdups ys)"
  by (rule sorted_distinct_set_unique) (simp_all add: assms)

lemma map_fst_groupby: "map fst (groupby key rows) = sort (remdups (dropna (map key rows)))"
  by (simp add: groupby_def comp_def)

lemma in_groupby_D:
  assumes "(k, grp) \<in> set (groupby key rows)"
  shows "grp = filter (\<lambda>r. key r = Some k) rows"
  using assms by (auto simp: groupby_def)

lemma agg_count_all: "\<forall>c\<in>set col. c \<noteq> None \<Longrightarrow> agg_count col = length col"
  unfolding agg_count_def by (induction col rule: dropna.induct) auto

subsection \<open>The climate summary\<close>

lemma grouped_Inr_D:
  assumes ok: "argsort_ok (argsort L)" and g: "grouped L (read_csv rows) = Inr g"
  shows "\<exists>rows2. mset rows2 = mset (map (parsed L) rows)
        \<and> (\<forall>r\<in>set rows. \<exists>t. to_datetime L (Timestamp r) = Inr t)
        \<and> g = map agg (groupby Date_col rows2)"
proof -
  define df0 where "df0 = zip [0..<length rows] rows"
  obtain df1 where df1: "apply_col (to_datetime L) Timestamp set_climate_Timestamp df0 = Inr df1"
    using g unfolding grouped_def read_csv_def df0_def by (auto split: sum.splits)
  define df2 where "df2 = sort_values L Timestamp df1"
  have gg: "g = map agg (groupby Date_col (map snd df2))"
    using g unfolding grouped_def read_csv_def df0_def [symmetric] df1 df2_def
    by (simp add: Let_def)
  have d1: "df1 = map (\<lambda>(i, r). (i, set_climate_Timestamp r
                (projr (to_datetime L (Timestamp r))))) df0"
    and all: "\<forall>(i, r)\<in>set df0. \<exists>t. to_datetime L (Timestamp r) = Inr t"
    using apply_col_Inr_D [OF df1] by blast+
  have "map snd df1 = map (parsed L) (map snd df0)"
    unfolding d1 parsed_def by (simp add: case_prod_beta)
  moreover have s0: "map snd df0 = rows" unfolding df0_def by simp
  ultimately have "map snd df1 = map (parsed L) rows" by simp
  moreover have "mset df2 = mset df1"
    unfolding df2_def using ok by (rule mset_sort_values)
  ultimately have m: "mset (map snd df2) = mset (map (parsed L) rows)"
    by (metis mset_map)
  have "snd ` set df0 = set rows" using s0 by (metis set_map)
  then have "\<forall>r\<in>set rows. \<exists>t. to_datetime L (Timestamp r) = Inr t"
    using all by fastforce
  with m gg show ?thesis by blast
qed

lemma Date_col_parsed:
  assumes "to_datetime L (Timestamp r) = Inr t"
  shows "Date_col (parsed L r) = date_cell L r"
  using assms
  by (cases t) (simp_all add: Date_col_def parsed_def date_cell_def set_climate_Timestamp_def)

text \<open>The group of a date holds the parsed source records of that date, each once.\<close>

lemma climate_group:
  assumes ok: "argsort_ok (argsort L)" and g: "grouped L (read_csv rows) = Inr g"
    and row: "row \<in> set g"
  shows "\<exists>grp. row = agg (Date row, grp)
           \<and> mset grp = mset (map (parsed L) (on_date L (Date row) rows))
           \<and> (\<forall>r\<in>set grp. Timestamp r \<noteq> None)"
proof -
  obtain rows2 where m: "mset rows2 = mset (map (parsed L) rows)"
      and all: "\<forall>r\<in>set rows. \<exists>t. to_datetime L (Timestamp r) = Inr t"
      and gg: "g = map agg (groupby Date_col rows2)"
    using grouped_Inr_D [OF ok g] by blast
  obtain d grp where dg: "(d, grp) \<in> set (groupby Date_col rows2)" "row = agg (d, grp)"
    using row unfolding gg by auto
  have d: "Date row = d" using dg(2) by (simp add: agg_def)
  have grp: "grp = filter (\<lambda>r. Date_col r = Some d) rows2"
    using dg(1) by (rule in_groupby_D)
  have "mset grp = filter_mset (\<lambda>r. Date_col r = Some d) (mset rows2)"
    unfolding grp by simp
  also have "\<dots> = mset (filter (\<lambda>r. Date_col r = Some d) (map (parsed L) rows))"
    unfolding m by simp
  also have "filter (\<lambda>r. Date_col r = Some d) (map (parsed L) rows)
      = map (parsed L) (filter (\<lambda>r. Date_col (parsed L r) = Some d) rows)"
    by (simp add: filter_map comp_def)
  also have "filter (\<lambda>r. Date_col (parsed L r) = Some d) rows = on_date L d rows"
    unfolding on_date_def using all Date_col_parsed by (intro filter_cong) auto
  finally have A: "mset grp = mset (map (parsed L) (on_date L (Date row) rows))"
    using d by simp
  have B: "\<forall>r\<in>set grp. Timestamp r \<noteq> None"
    unfolding grp by (auto simp: Date_col_def)
  have C: "row = agg (Date row, grp)"
    using dg(2) d by simp
  show ?thesis
    using A B C by (intro exI [of _ grp]) simp
qed

lemma sample_grouped: "grouped pylib0 (read_csv climate_sample) = Inr climate_daily"
  by code_simp

text \<open>
  C5. The daily summary of a climate file has one row for every date on which a source
  record falls, in ascending order, and the \<open>Rows\<close> field of a date's row is the number
  of source records on that date. The measurements of a record play no part in it: a
  record counts whether or not its \<open>T1\<close>, \<open>T2\<close>, \<open>T3\<close>, \<open>SM\<close>, \<open>SH\<close> are there.
\<close>

theorem rows_count_exact:
  assumes ok: "argsort_ok (argsort L)" and g: "grouped L (read_csv rows) = Inr g"
  shows "map Date g = sort (remdups (dropna (map (date_cell L) rows)))
       \<and> (\<forall>row\<in>set g. Rows row = length (on_date L (Date row) rows))"
proof -
  obtain rows2 where m: "mset rows2 = mset (map (parsed L) rows)"
      and all: "\<forall>r\<in>set rows. \<exists>t. to_datetime L (Timestamp r) = Inr t"
      and gg: "g = map agg (groupby Date_col rows2)"
    using grouped_Inr_D [OF ok g] by blast
  have "map Date g = map fst (groupby Date_col rows2)"
    unfolding gg by (simp add: agg_def case_prod_beta comp_def)
  also have "\<dots> = sort (remdups (dropna (map Date_col rows2)))"
    by (rule map_fst_groupby)
  also have "\<dots> = sort (remdups (dropna (map (date_cell L) rows)))"
  proof (rule sort_remdups_cong)
    have "set rows2 = parsed L ` set rows"
      using m by (metis mset_eq_setD set_map)
    then have "set (map Date_col rows2) = set (map (date_cell L) rows)"
      using all Date_col_parsed by (auto simp: image_iff) (metis+)
    then show "set (dropna (map Date_col rows2)) = set (dropna (map (date_cell L) rows))"
      unfolding set_dropna by simp
  qed
  finally have dates: "map Date g = sort (remdups (dropna (map (date_cell L) rows)))" .
  have "Rows row = length (on_date L (Date row) rows)" if rin: "row \<in> set g" for row
  proof -
    obtain grp where grp: "row = agg (Date row, grp)"
        "mset grp = mset (map (parsed L) (on_date L (Date row) rows))"
        "\<forall>r\<in>set grp. Timestamp r \<noteq> None"
      using climate_group [OF ok g rin] by blast
    have "Rows row = agg_count (map Timestamp grp)"
      by (subst grp(1)) (simp add: agg_def)
    also have "\<dots> = length grp"
      using grp(3) by (simp add: agg_count_all)
    also have "\<dots> = length (on_date L (Date row) rows)"
      using grp(2) by (metis length_map size_mset)
    finally show ?thesis .
  qed
  with dates show ?thesis by blast
qed

theorem rows_count_exact_witness:
  "argsort_ok (argsort pylib0)
   \<and> grouped pylib0 (read_csv climate_sample) = Inr climate_daily
   \<and> map (date_cell pylib0) climate_sample
       = [Some (2023, 7, 5), Some (2023, 7, 4), Some (2023, 7, 4)]
   \<and> map Date climate_daily = sort (remdups (dropna (map (date_cell pylib0) climate_sample)))
   \<and> map (\<lambda>row. (Date row, Rows row)) climate_daily = [((2023, 7, 4), 2), ((2023, 7, 5), 1)]
   \<and> list_all (\<lambda>row. Rows row = length (on_date pylib0 (Date row) climate_sample))
       climate_daily"
proof -
  have d: "map (date_cell pylib0) climate_sample
       = [Some (2023, 7, 5), Some (2023, 7, 4), Some (2023, 7, 4)]"
    by code_simp
  have r: "map (\<lambda>row. (Date row, Rows row)) climate_daily
       = [((2023, 7, 4), 2), ((2023, 7, 5), 1)]"
    by (simp add: climate_daily_def)
  from rows_count_exact [OF pylib0_ok sample_grouped]
  have "map Date climate_daily = sort (remdups (dropna (map (date_cell pylib0) climate_sample)))
   \<and> list_all (\<lambda>row. Rows row = length (on_date pylib0 (Date row) climate_sample))
       climate_daily"
    by (simp add: list_all_iff)
  with pylib0_ok sample_grouped d r show ?thesis by blast
qed

subsection \<open>The dendrometer summary\<close>

lemma process_dbh_folder_Inr_D:
  assumes "process_dbh_folder L folder fs = Inr (Some daily, fs')"
  shows "daily = map daily_of_group
           (groupby (\<lambda>r. Some (Sensor_ID r, date_of (dbh_Timestamp r))) (corrected_rows L folder))"
  using assms unfolding process_dbh_folder_def corrected_rows_def
  by (auto simp: Let_def split: sum.splits if_splits)

lemma dbh_group:
  assumes p: "process_dbh_folder L folder fs = Inr (Some daily, fs')" and row: "row \<in> set daily"
  shows "row = daily_of_group ((Sensor_ID_key row, Timestamp_key row),
           sensor_day (Sensor_ID_key row) (Timestamp_key row) (corrected_rows L folder))"
proof -
  obtain sid d grp where dg: "((sid, d), grp) \<in> set (groupby
      (\<lambda>r. Some (Sensor_ID r, date_of (dbh_Timestamp r))) (corrected_rows L folder))"
      "row = daily_of_group ((sid, d), grp)"
    using row unfolding process_dbh_folder_Inr_D [OF p] by auto
  have k: "Sensor_ID_key row = sid" "Timestamp_key row = d"
    using dg(2) by (simp_all add: daily_of_group_def Let_def)
  have "grp = sensor_day sid d (corrected_rows L folder)"
    using in_groupby_D [OF dg(1)] unfolding sensor_day_def by simp
  then show ?thesis using dg(2) k by simp
qed

lemma sample_summary:
  "\<exists>fs'. process_dbh_folder pylib0 dbh_folder Map.empty = Inr (Some dbh_summary, fs')"
proof -
  have "case process_dbh_folder pylib0 dbh_folder Map.empty of
          Inl e \<Rightarrow> False
        | Inr (d, fs') \<Rightarrow> d = Some dbh_summary"
    by code_simp
  then show ?thesis by (auto split: sum.splits prod.splits)
qed

text \<open>
  C6. In the climate summary every minimum and maximum of a date is the null-safe
  minimum or maximum of that channel over the source records of the date, and in the
  dendrometer summary \<open>Min_Size\<close> and \<open>Max_Size\<close> are those of the Size over the corrected
  rows of the sensor and date. The null-safe minimum is missing exactly when every cell
  is missing; otherwise it is one of the values that are there and no value that is
  there lies below it (for the maximum: above it). A missing cell is never counted as 0.
\<close>

theorem aggregates_skip_missing:
  assumes ok: "argsort_ok (argsort L)" and g: "grouped L (read_csv rows) = Inr g"
    and p: "process_dbh_folder L folder fs = Inr (Some daily, fs')"
  shows "(\<forall>row\<in>set g.
            T1_Min row = null_safe_min (map T1 (on_date L (Date row) rows))
          \<and> T1_Max row = null_safe_max (map T1 (on_date L (Date row) rows))
          \<and> T2_Min row = null_safe_min (map T2 (on_date L (Date row) rows))
          \<and> T2_Max row = null_safe_max (map T2 (on_date L (Date row) rows))
          \<and> T3_Min row = null_safe_min (map T3 (on_date L (Date row) rows))
          \<and> T3_Max row = null_safe_max (map T3 (on_date L (Date row) rows))
          \<and> Soil_Min row = null_safe_min (map SM (on_date L (Date row) rows))
          \<and> Soil_Max row = null_safe_max (map SM (on_date L (Date row) rows))
          \<and> Shake_Max row = null_safe_max (map SH (on_date L (Date row) rows)))
       \<and> (\<forall>row\<in>set daily.
            Min_Size row = null_safe_min (map Size
              (sensor_day (Sensor_ID_key row) (Timestamp_key row) (corrected_rows L folder)))
          \<and> Max_Size row = null_safe_max (map Size
              (sensor_day (Sensor_ID_key row) (Timestamp_key row) (corrected_rows L folder))))
       \<and> (\<forall>col. (null_safe_min col = None \<longleftrightarrow> (\<forall>c\<in>set col. c = None))
             \<and> (null_safe_max col = None \<longleftrightarrow> (\<forall>c\<in>set col. c = None))
             \<and> (\<forall>m. null_safe_min col = Some m
                   \<longrightarrow> Some m \<in> set col \<and> (\<forall>v. Some v \<in> set col \<longrightarrow> m \<le> v))
             \<and> (\<forall>m. null_safe_max col = Some m
                   \<longrightarrow> Some m \<in> set col \<and> (\<forall>v. Some v \<in> set col \<longrightarrow> v \<le> m)))"
proof -
  have climate: "T1_Min row = null_safe_min (map T1 (on_date L (Date row) rows))
          \<and> T1_Max row = null_safe_max (map T1 (on_date L (Date row) rows))
          \<and> T2_Min row = null_safe_min (map T2 (on_date L (Date row) rows))
          \<and> T2_Max row = null_safe_max (map T2 (on_date L (Date row) rows))
          \<and> T3_Min row = null_safe_min (map T3 (on_date L (Date row) rows))
          \<and> T3_Max row = null_safe_max (map T3 (on_date L (Date row) rows))
          \<and> Soil_Min row = null_safe_min (map SM (on_date L (Date row) rows))
          \<and> Soil_Max row = null_safe_max (map SM (on_date L (Date row) rows))
          \<and> Shake_Max row = null_safe_max (map SH (on_date L (Date row) rows))"
    if rin: "row \<in> set g" for row
  proof -
    define od where "od = on_date L (Date row) rows"
    obtain grp where grp: "row = agg (Date row, grp)"
        "mset grp = mset (map (parsed L) od)"
      using climate_group [OF ok g rin] unfolding od_def by blast
    have col: "mset (map f grp) = mset (map f' od)"
      if "\<And>r. f (parsed L r) = f' r" for f :: "datetime option climate_row \<Rightarrow> rat option"
        and f'
    proof -
      have "mset (map f grp) = mset (map f (map (parsed L) od))"
        using grp(2) by (metis mset_map)
      then show ?thesis using that by (simp add: comp_def)
    qed
    have c1: "mset (map T1 grp) = mset (map T1 od)"
      by (rule col) (simp add: parsed_def set_climate_Timestamp_def)
    have c2: "mset (map T2 grp) = mset (map T2 od)"
      by (rule col) (simp add: parsed_def set_climate_Timestamp_def)
    have c3: "mset (map T3 grp) = mset (map T3 od)"
      by (rule col) (simp add: parsed_def set_climate_Timestamp_def)
    have c4: "mset (map SM grp) = mset (map SM od)"
      by (rule col) (simp add: parsed_def set_climate_Timestamp_def)
    have c5: "mset (map SH grp) = mset (map SH od)"
      by (rule col) (simp add: parsed_def set_climate_Timestamp_def)
    have f: "T1_Min row = agg_min (map T1 grp)" "T1_Max row = agg_max (map T1 grp)"
        "T2_Min row = agg_min (map T2 grp)" "T2_Max row = agg_max (map T2 grp)"
        "T3_Min row = agg_min (map T3 grp)" "T3_Max row = agg_max (map T3 grp)"
        "Soil_Min row = agg_min (map SM grp)" "Soil_Max row = agg_max (map SM grp)"
        "Shake_Max row = agg_max (map SH grp)"
      by (subst grp(1), simp add: agg_def)+
    show ?thesis
      unfolding f agg_min_null_safe agg_max_null_safe od_def [symmetric]
      using null_safe_min_mset [OF c1] null_safe_max_mset [OF c1]
        null_safe_min_mset [OF c2] null_safe_max_mset [OF c2]
        null_safe_min_mset [OF c3] null_safe_max_mset [OF c3]
        null_safe_min_mset [OF c4] null_safe_max_mset [OF c4]
        null_safe_max_mset [OF c5]
      by simp
  qed
  have dbh: "Min_Size row = null_safe_min (map Size
              (sensor_day (Sensor_ID_key row) (Timestamp_key row) (corrected_rows L folder)))
          \<and> Max_Size row = null_safe_max (map Size
              (sensor_day (Sensor_ID_key row) (Timestamp_key row) (corrected_rows L folder)))"
    if rin: "row \<in> set daily" for row
    by (subst (1 2) dbh_group [OF p rin])
      (simp add: daily_of_group_def Let_def agg_min_null_safe agg_max_null_safe)
  show ?thesis
    using climate dbh null_safe_min_None_iff null_safe_max_None_iff
      null_safe_min_Some_D null_safe_max_Some_D
    by blast
qed

theorem aggregates_skip_missing_witness:
  "argsort_ok (argsort pylib0)
   \<and> grouped pylib0 (read_csv climate_sample) = Inr climate_daily
   \<and> (\<exists>fs'. process_dbh_folder pylib0 dbh_folder Map.empty = Inr (Some dbh_summary, fs'))
   \<and> map (\<lambda>row. (T1_Min row, T2_Min row, T3_Min row, T3_Max row)) climate_daily
       = [(Some 20, Some (- 3), None, None), (Some 18, Some 17, Some 16, Some 16)]
   \<and> list_all (\<lambda>row. T1_Min row = null_safe_min (map T1 (on_date pylib0 (Date row) climate_sample))
                  \<and> T3_Max row = null_safe_max (map T3 (on_date pylib0 (Date row) climate_sample)))
       climate_daily
   \<and> map (\<lambda>row. (Min_Size row, Max_Size row)) dbh_summary
       = [(Some 100, Some 130), (None, None), (Some 140, Some 140), (Some 50, Some 500)]
   \<and> list_all (\<lambda>row. Min_Size row = null_safe_min (map Size
          (sensor_day (Sensor_ID_key row) (Timestamp_key row) (corrected_rows pylib0 dbh_folder))))
       dbh_summary"
proof -
  obtain fs' where p: "process_dbh_folder pylib0 dbh_folder Map.empty = Inr (Some dbh_summary, fs')"
    using sample_summary by blast
  have c: "map (\<lambda>row. (T1_Min row, T2_Min row, T3_Min row, T3_Max row)) climate_daily
       = [(Some 20, Some (- 3), None, None), (Some 18, Some 17, Some 16, Some 16)]"
    by (simp add: climate_daily_def)
  have d: "map (\<lambda>row. (Min_Size row, Max_Size row)) dbh_summary
       = [(Some 100, Some 130), (None, None), (Some 140, Some 140), (Some 50, Some 500)]"
    by (simp add: dbh_summary_def)
  note t = aggregates_skip_missing [OF pylib0_ok sample_grouped p]
  have a: "list_all (\<lambda>row. T1_Min row
                = null_safe_min (map T1 (on_date pylib0 (Date row) climate_sample))
              \<and> T3_Max row = null_safe_max (map T3 (on_date pylib0 (Date row) climate_sample)))
       climate_daily"
    unfolding list_all_iff using t by blast
  have b: "list_all (\<lambda>row. Min_Size row = null_safe_min (map Size
          (sensor_day (Sensor_ID_key row) (Timestamp_key row) (corrected_rows pylib0 dbh_folder))))
       dbh_summary"
    unfolding list_all_iff using t by blast
  show ?thesis
    using pylib0_ok sample_grouped p c d a b by blast
qed





subsection \<open>A size that is not a number\<close>

lemma all_data_member:
  assumes "all_data L folder = Inr dfs" and "(file, raw) \<in> set folder"
    and "endswith (lower file) ''.csv''"
  shows "\<exists>df. compute_dbh_df L raw 1 = Inr df
           \<and> map (\<lambda>(i, r). (i, set_Sensor_ID r (station_id_of file))) df \<in> set dfs"
  using assms
proof (induction folder arbitrary: dfs)
  case Nil
  then show ?case by simp
next
  case (Cons a folder)
  obtain f w where a: "a = (f, w)" by (cases a)
  show ?case
  proof (cases "endswith (lower f) ''.csv''")
    case False
    then have "all_data L folder = Inr dfs" "(file, raw) \<in> set folder"
      using Cons.prems a by auto
    then show ?thesis using Cons.IH Cons.prems(3) by blast
  next
    case True
    then obtain df rest where df: "compute_dbh_df L w 1 = Inr df"
        and rest: "all_data L folder = Inr rest"
        and dfs: "dfs = map (\<lambda>(i, r). (i, set_Sensor_ID r (station_id_of f))) df # rest"
      using Cons.prems(1) a by (auto simp: Let_def split: sum.splits)
    show ?thesis
    proof (cases "(file, raw) = (f, w)")
      case True
      then show ?thesis using df dfs by simp
    next
      case False
      then have "(file, raw) \<in> set folder" using Cons.prems(2) a by auto
      then show ?thesis using Cons.IH [OF rest _ Cons.prems(3)] dfs by auto
    qed
  qed
qed

lemma corrected_rows_member:
  assumes "all_data L folder = Inr dfs" and "(file, raw) \<in> set folder"
    and "endswith (lower file) ''.csv''" and "compute_dbh_df L raw 1 = Inr out"
    and "(i, r) \<in> set out"
  shows "set_Sensor_ID r (station_id_of file) \<in> set (corrected_rows L folder)"
proof -
  have "map (\<lambda>(i, r). (i, set_Sensor_ID r (station_id_of file))) out \<in> set dfs"
    using all_data_member [OF assms(1,2,3)] assms(4) by simp
  moreover have "(i, set_Sensor_ID r (station_id_of file))
      \<in> set (map (\<lambda>(i, r). (i, set_Sensor_ID r (station_id_of file))) out)"
    using assms(5) by force
  ultimately show ?thesis
    unfolding corrected_rows_def assms(1) by force
qed

lemma dropna_present: "dropna (map f (filter (\<lambda>r. f r \<noteq> None) rows)) = dropna (map f rows)"
proof (induction rows)
  case Nil
  then show ?case by simp
next
  case (Cons r rows)
  then show ?case by (cases "f r") simp_all
qed

lemma agg_present:
  "agg_min (map f (filter (\<lambda>r. f r \<noteq> None) rows)) = agg_min (map f rows)"
  "agg_max (map f (filter (\<lambda>r. f r \<noteq> None) rows)) = agg_max (map f rows)"
  unfolding agg_min_def agg_max_def dropna_present by simp_all

text \<open>
  C9. A data row whose Size token is not a number has a missing Size in the frame that
  \<open>compute_dbh_df\<close> returns: the row is there under its label, the addition of the
  baseline has not given it a value, and it enters the combined table of the folder with
  its Size still missing. Every \<open>Min_Size\<close> and \<open>Max_Size\<close> of the summary is the aggregate of
  its group without the rows whose Size is missing.
\<close>

theorem missing_size_stays_missing:
  assumes ok: "argsort_ok (argsort L)"
    and i: "i < length (drop 1 raw)" and tok: "to_numeric L (Size (drop 1 raw ! i)) = None"
    and out: "compute_dbh_df L raw 1 = Inr out"
    and f: "(file, raw) \<in> set folder" "endswith (lower file) ''.csv''"
    and p: "process_dbh_folder L folder fs = Inr (Some daily, fs')"
  shows "(\<exists>r. (i, r) \<in> set out)
       \<and> (\<forall>r. (i, r) \<in> set out \<longrightarrow> Size r = None
              \<and> set_Sensor_ID r (station_id_of file) \<in> set (corrected_rows L folder))
       \<and> (\<forall>row\<in>set daily.
            Min_Size row = agg_min (map Size (filter (\<lambda>r. Size r \<noteq> None)
              (sensor_day (Sensor_ID_key row) (Timestamp_key row) (corrected_rows L folder))))
          \<and> Max_Size row = agg_max (map Size (filter (\<lambda>r. Size r \<noteq> None)
              (sensor_day (Sensor_ID_key row) (Timestamp_key row) (corrected_rows L folder)))))"
proof -
  define rows where "rows = drop 1 raw"
  obtain df pos where d: "out = take pos df @ map (add_baseline 8890) (drop pos df)"
      "mset (map fst df) = mset [0..<length rows]"
      "\<forall>(i, r)\<in>set df. i < length rows \<and> Size r = to_numeric L (Size (rows ! i))"
    using compute_dbh_df_Inr_D [OF ok out] unfolding rows_def by blast
  have fst_add: "fst \<circ> add_baseline 8890 = fst"
    by (auto simp: add_baseline_def)
  have "map fst out = map fst (take pos df) @ map fst (drop pos df)"
    unfolding d(1) by (simp add: fst_add)
  also have "\<dots> = map fst df"
    by (metis append_take_drop_id map_append)
  finally have labels: "map fst out = map fst df" .
  have "i \<in># mset [0..<length rows]" using i unfolding rows_def by simp
  then have "i \<in> set (map fst out)"
    unfolding labels using d(2) by (metis set_mset_mset)
  then have A: "\<exists>r. (i, r) \<in> set out" by auto
  have none: "Size r = None" if "(i, r) \<in> set df" for r
    using d(3) that tok unfolding rows_def by auto
  have B: "Size r = None" if r: "(i, r) \<in> set out" for r
  proof -
    from r have "(i, r) \<in> set (take pos df) \<or> (i, r) \<in> add_baseline 8890 ` set (drop pos df)"
      unfolding d(1) by auto
    then show ?thesis
    proof
      assume "(i, r) \<in> set (take pos df)"
      then have "(i, r) \<in> set df" by (rule in_set_takeD)
      then show ?thesis by (rule none)
    next
      assume "(i, r) \<in> add_baseline 8890 ` set (drop pos df)"
      then obtain r0 where "(i, r0) \<in> set (drop pos df)"
          "r = set_Size r0 (map_option (\<lambda>v. round_double (v + 8890)) (Size r0))"
        by (auto simp: add_baseline_def)
      then show ?thesis using none [of r0] by (auto simp: set_Size_def dest: in_set_dropD)
    qed
  qed
  obtain dfs where dfs: "all_data L folder = Inr dfs"
    using p unfolding process_dbh_folder_def by (auto split: sum.splits)
  have C: "set_Sensor_ID r (station_id_of file) \<in> set (corrected_rows L folder)"
    if "(i, r) \<in> set out" for r
    using corrected_rows_member [OF dfs f out that] .
  have D: "Min_Size row = agg_min (map Size (filter (\<lambda>r. Size r \<noteq> None)
              (sensor_day (Sensor_ID_key row) (Timestamp_key row) (corrected_rows L folder))))
          \<and> Max_Size row = agg_max (map Size (filter (\<lambda>r. Size r \<noteq> None)
              (sensor_day (Sensor_ID_key row) (Timestamp_key row) (corrected_rows L folder))))"
    if rin: "row \<in> set daily" for row
    unfolding agg_present
    by (subst (1 2) dbh_group [OF p rin]) (simp add: daily_of_group_def Let_def)
  show ?thesis using A B C D by blast
qed

lemma sample_gap_summary:
  "\<exists>fs'. process_dbh_folder pylib0 dbh_gap_folder Map.empty = Inr (Some dbh_gap_summary, fs')"
proof -
  have "case process_dbh_folder pylib0 dbh_gap_folder Map.empty of
          Inl e \<Rightarrow> False
        | Inr (d, fs') \<Rightarrow> d = Some dbh_gap_summary"
    by code_simp
  then show ?thesis by (auto split: sum.splits prod.splits)
qed

theorem missing_size_stays_missing_witness:
  "argsort_ok (argsort pylib0)
   \<and> to_numeric pylib0 (Size (drop 1 dbh_gap_after_rollover ! 1)) = None
   \<and> sizes_of (compute_dbh_df pylib0 dbh_gap_after_rollover 1)
       = Inr [(0, (2023, 7, 4, 12, 0), Some 8890), (1, (2023, 7, 4, 12, 10), None),
              (2, (2023, 7, 4, 12, 20), Some 8940)]
   \<and> (\<exists>out r. compute_dbh_df pylib0 dbh_gap_after_rollover 1 = Inr out \<and> (1, r) \<in> set out
         \<and> Size r = None
         \<and> set_Sensor_ID r ''92203'' \<in> set (corrected_rows pylib0 dbh_gap_folder))
   \<and> map (\<lambda>row. (Min_Size row, Max_Size row)) dbh_gap_summary = [(Some 8890, Some 8940)]"
proof -
  have tok: "to_numeric pylib0 (Size (drop 1 dbh_gap_after_rollover ! 1)) = None"
    by code_simp
  have i: "1 < length (drop 1 dbh_gap_after_rollover)"
    by (simp add: dbh_gap_after_rollover_def)
  have run: "sizes_of (compute_dbh_df pylib0 dbh_gap_after_rollover 1)
       = Inr [(0, (2023, 7, 4, 12, 0), Some 8890), (1, (2023, 7, 4, 12, 10), None),
              (2, (2023, 7, 4, 12, 20), Some 8940)]"
    by code_simp
  then obtain out where out: "compute_dbh_df pylib0 dbh_gap_after_rollover 1 = Inr out"
    by (auto simp: sizes_of_def split: sum.splits)
  obtain fs' where p: "process_dbh_folder pylib0 dbh_gap_folder Map.empty
      = Inr (Some dbh_gap_summary, fs')"
    using sample_gap_summary by blast
  have m: "(''92203_2023.csv'', dbh_gap_after_rollover) \<in> set dbh_gap_folder"
    by (simp add: dbh_gap_folder_def)
  have c: "endswith (lower ''92203_2023.csv'') ''.csv''"
    by code_simp
  have sid: "station_id_of ''92203_2023.csv'' = ''92203''"
    by code_simp
  have s: "map (\<lambda>row. (Min_Size row, Max_Size row)) dbh_gap_summary = [(Some 8890, Some 8940)]"
    by (simp add: dbh_gap_summary_def)
  from missing_size_stays_missing [OF pylib0_ok i tok out m c p]
  have "\<exists>r. (1, r) \<in> set out \<and> Size r = None
         \<and> set_Sensor_ID r ''92203'' \<in> set (corrected_rows pylib0 dbh_gap_folder)"
    unfolding sid by blast
  with pylib0_ok tok run out s show ?thesis by blast
qed

subsection \<open>Two files of one station\<close>

lemma last_with_path_Cons:
  "last_with_path dest path ((file, rows) # folder) =
     (case last_with_path dest path folder of
        Some hit \<Rightarrow> Some hit
      | None \<Rightarrow> if endswith file ''.csv'' \<and> dest_path_of dest file = path
                then Some (file, rows) else None)"
  unfolding last_with_path_def by (auto split: list.splits)

lemma summarize_folder_files:
  assumes "summarize_folder L folder dest fs = Inr fs'"
  shows "fs' path = written L (last_with_path dest path folder) (fs path)"
  using assms
proof (induction folder arbitrary: fs)
  case Nil
  then show ?case by (simp add: last_with_path_def written_def)
next
  case (Cons a folder)
  obtain fname rows where a: "a = (fname, rows)" by (cases a)
  show ?case
  proof (cases "endswith fname ''.csv''")
    case False
    then have "summarize_folder L folder dest fs = Inr fs'"
      using Cons.prems a by simp
    then have "fs' path = written L (last_with_path dest path folder) (fs path)"
      by (rule Cons.IH)
    then show ?thesis
      unfolding a last_with_path_Cons using False by (simp split: option.splits)
  next
    case True
    then obtain g where g: "grouped L (read_csv rows) = Inr g"
        and rest: "summarize_folder L folder dest (fs(dest_path_of dest fname \<mapsto> Climate_csv g)) = Inr fs'"
      using Cons.prems a
      by (auto simp: Let_def daily_summary_def dest_path_of_def split: sum.splits)
    have ih: "fs' path = written L (last_with_path dest path folder)
        ((fs(dest_path_of dest fname \<mapsto> Climate_csv g)) path)"
      using rest by (rule Cons.IH)
    show ?thesis
      unfolding a last_with_path_Cons ih using True g
      by (auto simp: written_def split: option.splits)
  qed
qed

lemma summarize_folder_grouped:
  assumes "summarize_folder L folder dest fs = Inr fs'"
    and "(file, rows) \<in> set folder" and "endswith file ''.csv''"
  shows "\<exists>g. grouped L (read_csv rows) = Inr g"
  using assms
proof (induction folder arbitrary: fs)
  case Nil
  then show ?case by simp
next
  case (Cons a folder)
  obtain f w where a: "a = (f, w)" by (cases a)
  show ?case
  proof (cases "(file, rows) = (f, w)")
    case True
    then show ?thesis using Cons.prems a
      by (auto simp: Let_def daily_summary_def split: sum.splits)
  next
    case False
    then have m: "(file, rows) \<in> set folder" using Cons.prems(2) a by auto
    obtain fs1 where "summarize_folder L folder dest fs1 = Inr fs'"
      using Cons.prems(1) a
      by (cases "endswith f ''.csv''") (auto simp: Let_def split: sum.splits)
    then show ?thesis using Cons.IH m Cons.prems(3) by blast
  qed
qed

lemma last_with_path_None_iff:
  "last_with_path dest path folder = None
     \<longleftrightarrow> \<not> (\<exists>file rows. (file, rows) \<in> set folder \<and> endswith file ''.csv''
              \<and> dest_path_of dest file = path)"
proof -
  have "last_with_path dest path folder = None
     \<longleftrightarrow> filter (\<lambda>(file, rows). endswith file ''.csv''
            \<and> dest_path_of dest file = path) folder = []"
    unfolding last_with_path_def by (simp split: list.splits)
  then show ?thesis by (auto simp: filter_empty_conv)
qed

lemma last_with_path_Some_D:
  assumes "last_with_path dest path folder = Some (file, rows)"
  shows "(file, rows) \<in> set folder \<and> endswith file ''.csv'' \<and> dest_path_of dest file = path"
proof -
  define hits where "hits = filter (\<lambda>(file, rows). endswith file ''.csv''
      \<and> dest_path_of dest file = path) folder"
  have "hits \<noteq> []" and "last hits = (file, rows)"
    using assms unfolding last_with_path_def hits_def [symmetric]
    by (auto split: list.splits)
  then have "(file, rows) \<in> set hits" by (metis last_in_set)
  then show ?thesis unfolding hits_def by auto
qed

lemma set_station_id_of: "set (station_id_of file) \<subseteq> set file"
proof -
  have "set (stem file) \<subseteq> set file"
    unfolding stem_def by (auto split: option.splits dest: in_set_takeD)
  moreover have "set (station_id_of file) \<subseteq> set (stem file)"
    unfolding station_id_of_def by (auto dest: set_takeWhileD)
  ultimately show ?thesis by blast
qed

lemma os_path_join_inj:
  assumes "os_path_join a (s1 @ ''_daily.csv'') = os_path_join a (s2 @ ''_daily.csv'')"
    and "CHR ''/'' \<notin> set s1" and "CHR ''/'' \<notin> set s2"
  shows "s1 = s2"
proof -
  have h: "hd (s @ ''_daily.csv'') \<noteq> CHR ''/''" if "CHR ''/'' \<notin> set s" for s
    using that by (cases s) auto
  show ?thesis
    using assms(1) h [OF assms(2)] h [OF assms(3)]
    unfolding os_path_join_def by (auto split: if_splits)
qed

text \<open>
  C10. After a run of \<open>summarize_folder\<close> every path holds the summary of the last
  \<open>.csv\<close> file of the walk that is written to it, and what it held before when no file
  is. Files with the same station id are written to the same path, so of two such files
  only the later one is left. The paths written are those of the station ids of the
  \<open>.csv\<close> files, one for each id (file names contain no slash).
\<close>

theorem station_id_collision_overwrites:
  assumes s: "summarize_folder L folder dest_folder fs = Inr fs'"
  shows "(\<forall>path. fs' path = written L (last_with_path dest_folder path folder) (fs path))
       \<and> (\<forall>f1 f2. station_id_of f1 = station_id_of f2
             \<longrightarrow> dest_path_of dest_folder f1 = dest_path_of dest_folder f2)
       \<and> dom fs' = dom fs \<union> {dest_path_of dest_folder file | file rows.
             (file, rows) \<in> set folder \<and> endswith file ''.csv''}
       \<and> (\<forall>f1 f2. CHR ''/'' \<notin> set f1 \<and> CHR ''/'' \<notin> set f2
             \<and> dest_path_of dest_folder f1 = dest_path_of dest_folder f2
             \<longrightarrow> station_id_of f1 = station_id_of f2)"
proof -
  have A: "fs' path = written L (last_with_path dest_folder path folder) (fs path)" for path
    using s by (rule summarize_folder_files)
  have B: "dest_path_of dest_folder f1 = dest_path_of dest_folder f2"
    if "station_id_of f1 = station_id_of f2" for f1 f2
    using that by (simp add: dest_path_of_def)
  have C: "dom fs' = dom fs \<union> {dest_path_of dest_folder file | file rows.
             (file, rows) \<in> set folder \<and> endswith file ''.csv''}"
  proof (rule set_eqI)
    fix path
    show "path \<in> dom fs' \<longleftrightarrow> path \<in> dom fs \<union> {dest_path_of dest_folder file | file rows.
             (file, rows) \<in> set folder \<and> endswith file ''.csv''}"
    proof (cases "last_with_path dest_folder path folder")
      case None
      then have "fs' path = fs path" using A by (simp add: written_def)
      moreover have "path \<notin> {dest_path_of dest_folder file | file rows.
             (file, rows) \<in> set folder \<and> endswith file ''.csv''}"
        using None unfolding last_with_path_None_iff by auto
      ultimately show ?thesis by (auto simp: dom_def)
    next
      case (Some hit)
      obtain fname rows where hit: "hit = (fname, rows)" by (cases hit)
      have m: "(fname, rows) \<in> set folder" "endswith fname ''.csv''"
          "dest_path_of dest_folder fname = path"
        using last_with_path_Some_D [OF Some [unfolded hit]] by simp_all
      obtain g where "grouped L (read_csv rows) = Inr g"
        using summarize_folder_grouped [OF s m(1,2)] by blast
      then have "fs' path = Some (Climate_csv g)"
        using A Some hit by (simp add: written_def)
      then show ?thesis using m by (auto simp: dom_def)
    qed
  qed
  have D: "station_id_of f1 = station_id_of f2"
    if "CHR ''/'' \<notin> set f1" "CHR ''/'' \<notin> set f2"
      "dest_path_of dest_folder f1 = dest_path_of dest_folder f2" for f1 f2
  proof -
    have "CHR ''/'' \<notin> set (station_id_of f1)" "CHR ''/'' \<notin> set (station_id_of f2)"
      using that(1,2) set_station_id_of by blast+
    then show ?thesis
      using that(3) os_path_join_inj unfolding dest_path_of_def by blast
  qed
  show ?thesis using A B C D by blast
qed

theorem station_id_collision_overwrites_witness:
  "station_id_of ''A1_2022.csv'' = station_id_of ''A1_2023.csv''
   \<and> map fst climate_folder = [''A1_2022.csv'', ''B7_2022.csv'', ''README.txt'', ''A1_2023.csv'']
   \<and> (\<exists>fs'. summarize_folder pylib0 climate_folder SUMMARIES_FOLDER Map.empty = Inr fs'
         \<and> fs' ''./Summaries/A1_daily.csv'' = Some (Climate_csv climate_later_daily)
         \<and> fs' ''./Summaries/B7_daily.csv'' = Some (Climate_csv climate_daily)
         \<and> fs' ''./Summaries/README_daily.csv'' = None
         \<and> dom fs' = {''./Summaries/A1_daily.csv'', ''./Summaries/B7_daily.csv''})"
proof -
  have sid: "station_id_of ''A1_2022.csv'' = station_id_of ''A1_2023.csv''"
    by code_simp
  have names: "map fst climate_folder
      = [''A1_2022.csv'', ''B7_2022.csv'', ''README.txt'', ''A1_2023.csv'']"
    by (simp add: climate_folder_def)
  have "case summarize_folder pylib0 climate_folder SUMMARIES_FOLDER Map.empty of
          Inl e \<Rightarrow> False | Inr fs' \<Rightarrow> True"
    by code_simp
  then obtain fs' where s: "summarize_folder pylib0 climate_folder SUMMARIES_FOLDER Map.empty
      = Inr fs'"
    by (cases "summarize_folder pylib0 climate_folder SUMMARIES_FOLDER Map.empty") simp_all
  note t = station_id_collision_overwrites [OF s]
  have t1: "fs' path = written pylib0 (last_with_path SUMMARIES_FOLDER path climate_folder)
      (Map.empty path)" for path
    using t by (elim conjE) (erule allE)
  have t3: "dom fs' = dom (Map.empty :: files) \<union> {dest_path_of SUMMARIES_FOLDER file | file rows.
             (file, rows) \<in> set climate_folder \<and> endswith file ''.csv''}"
    using t by (elim conjE)
  have l1: "last_with_path SUMMARIES_FOLDER ''./Summaries/A1_daily.csv'' climate_folder
      = Some (''A1_2023.csv'', climate_later)"
    by code_simp
  have l2: "last_with_path SUMMARIES_FOLDER ''./Summaries/B7_daily.csv'' climate_folder
      = Some (''B7_2022.csv'', climate_sample)"
    by code_simp
  have l3: "last_with_path SUMMARIES_FOLDER ''./Summaries/README_daily.csv'' climate_folder
      = None"
    by code_simp
  have g1: "grouped pylib0 (read_csv climate_later) = Inr climate_later_daily"
    by code_simp
  have a1: "fs' ''./Summaries/A1_daily.csv'' = Some (Climate_csv climate_later_daily)"
    unfolding t1 l1 written_def by (simp add: g1)
  have a2: "fs' ''./Summaries/B7_daily.csv'' = Some (Climate_csv climate_daily)"
    unfolding t1 l2 written_def by (simp add: sample_grouped)
  have a3: "fs' ''./Summaries/README_daily.csv'' = None"
    unfolding t1 l3 written_def by simp
  have e: "endswith ''A1_2022.csv'' ''.csv''" "endswith ''B7_2022.csv'' ''.csv''"
      "\<not> endswith ''README.txt'' ''.csv''" "endswith ''A1_2023.csv'' ''.csv''"
    by code_simp+
  have d: "dest_path_of SUMMARIES_FOLDER ''A1_2022.csv'' = ''./Summaries/A1_daily.csv''"
      "dest_path_of SUMMARIES_FOLDER ''B7_2022.csv'' = ''./Summaries/B7_daily.csv''"
      "dest_path_of SUMMARIES_FOLDER ''A1_2023.csv'' = ''./Summaries/A1_daily.csv''"
    by code_simp+
  have "{dest_path_of SUMMARIES_FOLDER file | file rows.
          (file, rows) \<in> set climate_folder \<and> endswith file ''.csv''}
      = {''./Summaries/A1_daily.csv'', ''./Summaries/B7_daily.csv''}"
  proof (intro set_eqI iffI)
    fix x
    assume "x \<in> {dest_path_of SUMMARIES_FOLDER file | file rows.
          (file, rows) \<in> set climate_folder \<and> endswith file ''.csv''}"
    then obtain fname rows where x: "x = dest_path_of SUMMARIES_FOLDER fname"
        "(fname, rows) \<in> set climate_folder" "endswith fname ''.csv''"
      by blast
    from x(2) have "fname = ''A1_2022.csv'' \<or> fname = ''B7_2022.csv''
        \<or> fname = ''README.txt'' \<or> fname = ''A1_2023.csv''"
      unfolding climate_folder_def by (simp only: set_simps insert_iff prod.inject empty_iff) blast
    then show "x \<in> {''./Summaries/A1_daily.csv'', ''./Summaries/B7_daily.csv''}"
      using x(1,3) e(3) d by (elim disjE) (simp_all only: insert_iff simp_thms)
  next
    fix x
    assume "x \<in> {''./Summaries/A1_daily.csv'', ''./Summaries/B7_daily.csv''}"
    then have "x = ''./Summaries/A1_daily.csv'' \<or> x = ''./Summaries/B7_daily.csv''"
      by (simp only: insert_iff empty_iff simp_thms)
    then show "x \<in> {dest_path_of SUMMARIES_FOLDER file | file rows.
          (file, rows) \<in> set climate_folder \<and> endswith file ''.csv''}"
    proof
      assume "x = ''./Summaries/A1_daily.csv''"
      moreover have "(''A1_2022.csv'', climate_sample) \<in> set climate_folder"
        unfolding climate_folder_def by (simp only: set_simps insert_iff simp_thms)
      ultimately have "x = dest_path_of SUMMARIES_FOLDER ''A1_2022.csv''
          \<and> (''A1_2022.csv'', climate_sample) \<in> set climate_folder
          \<and> endswith ''A1_2022.csv'' ''.csv''"
        using d(1) e(1) by (simp only: simp_thms)
      then show ?thesis by - (rule CollectI, rule exI, rule exI, assumption)
    next
      assume "x = ''./Summaries/B7_daily.csv''"
      moreover have "(''B7_2022.csv'', climate_sample) \<in> set climate_folder"
        unfolding climate_folder_def by (simp only: set_simps insert_iff simp_thms)
      ultimately have "x = dest_path_of SUMMARIES_FOLDER ''B7_2022.csv''
          \<and> (''B7_2022.csv'', climate_sample) \<in> set climate_folder
          \<and> endswith ''B7_2022.csv'' ''.csv''"
        using d(2) e(2) by (simp only: simp_thms)
      then show ?thesis by - (rule CollectI, rule exI, rule exI, assumption)
    qed
  qed
  then have a4: "dom fs' = {''./Summaries/A1_daily.csv'', ''./Summaries/B7_daily.csv''}"
    unfolding t3 by (simp only: dom_empty Un_empty_left)
  show ?thesis
    using sid names s a1 a2 a3 a4 by (intro conjI exI [of _ fs']) 
qed

end
